theory Spec2Isabelle
  imports Main "HOL-Library.Sublist" "HOL-Library.AList"
begin

section \<open>Strings\<close>

text \<open>
  Python strings are modelled as \<^typ>\<open>string\<close>, read as sequences of the code points
  0..255 (Latin-1). \<open>str.lower()\<close> maps the upper-case letters of that range to their
  lower-case partners and leaves every other character alone.
\<close>

definition upper_chars :: "char list" where
  "upper_chars = ''ABCDEFGHIJKLMNOPQRSTUVWXYZ'' @
     [CHR 0xC0, CHR 0xC1, CHR 0xC2, CHR 0xC3, CHR 0xC4, CHR 0xC5, CHR 0xC6, CHR 0xC7,
      CHR 0xC8, CHR 0xC9, CHR 0xCA, CHR 0xCB, CHR 0xCC, CHR 0xCD, CHR 0xCE, CHR 0xCF,
      CHR 0xD0, CHR 0xD1, CHR 0xD2, CHR 0xD3, CHR 0xD4, CHR 0xD5, CHR 0xD6,
      CHR 0xD8, CHR 0xD9, CHR 0xDA, CHR 0xDB, CHR 0xDC, CHR 0xDD, CHR 0xDE]"

definition lower_chars :: "char list" where
  "lower_chars = ''abcdefghijklmnopqrstuvwxyz'' @
     [CHR 0xE0, CHR 0xE1, CHR 0xE2, CHR 0xE3, CHR 0xE4, CHR 0xE5, CHR 0xE6, CHR 0xE7,
      CHR 0xE8, CHR 0xE9, CHR 0xEA, CHR 0xEB, CHR 0xEC, CHR 0xED, CHR 0xEE, CHR 0xEF,
      CHR 0xF0, CHR 0xF1, CHR 0xF2, CHR 0xF3, CHR 0xF4, CHR 0xF5, CHR 0xF6,
      CHR 0xF8, CHR 0xF9, CHR 0xFA, CHR 0xFB, CHR 0xFC, CHR 0xFD, CHR 0xFE]"

definition py_lower_char :: "char \<Rightarrow> char" where
  "py_lower_char c = (case map_of (zip upper_chars lower_chars) c of None \<Rightarrow> c | Some l \<Rightarrow> l)"

definition lower :: "string \<Rightarrow> string" where
  "lower s = map py_lower_char s"

text \<open>\<open>s.startswith(p)\<close> and the substring test \<open>sub in s\<close>.\<close>

fun startswith :: "string \<Rightarrow> string \<Rightarrow> bool" where
  "startswith [] s = True"
| "startswith (p # ps) [] = False"
| "startswith (p # ps) (c # cs) = (p = c \<and> startswith ps cs)"

fun str_in :: "string \<Rightarrow> string \<Rightarrow> bool" where
  "str_in sub [] = (sub = [])"
| "str_in sub (c # cs) = (startswith sub (c # cs) \<or> str_in sub cs)"

text \<open>\<open>str.strip()\<close>: the white space of the range 0..255 is removed at both ends.\<close>

definition py_isspace :: "char \<Rightarrow> bool" where
  "py_isspace c = (c \<in> set [CHR 0x09, CHR 0x0A, CHR 0x0B, CHR 0x0C, CHR 0x0D,
                            CHR 0x1C, CHR 0x1D, CHR 0x1E, CHR 0x1F, CHR 0x20,
                            CHR 0x85, CHR 0xA0])"

definition strip :: "string \<Rightarrow> string" where
  "strip s = rev (dropWhile py_isspace (rev (dropWhile py_isspace s)))"

text \<open>\<open>sep.join(parts)\<close>.\<close>

fun join :: "string \<Rightarrow> string list \<Rightarrow> string" where
  "join sep [] = []"
| "join sep [p] = p"
| "join sep (p # q # ps) = p @ sep @ join sep (q # ps)"

text \<open>\<open>str(n)\<close> for an integer, as an f-string prints it.\<close>

definition digit_char :: "nat \<Rightarrow> char" where
  "digit_char d = ''0123456789'' ! (d mod 10)"

function str_nat :: "nat \<Rightarrow> string" where
  "str_nat n = (if n < 10 then [digit_char n] else str_nat (n div 10) @ [digit_char n])"
  by pat_completeness auto
termination
  by (relation "measure id") auto

declare str_nat.simps [simp del]

definition str_int :: "int \<Rightarrow> string" where
  "str_int i = (if i < 0 then CHR ''-'' # str_nat (nat (- i)) else str_nat (nat i))"

section \<open>Data model\<close>

text \<open>
  One parsed test case: the dictionary \<open>parse_results\<close> builds, with the two keys
  \<open>llm_triage\<close> may add later (\<open>None\<close>: the key is absent). The type \<open>'f\<close> stands for
  Python's \<open>float\<close>.
\<close>

record 'f tcase =
  name :: string
  suite :: string
  time_s :: 'f
  status :: string
  message :: string
  details :: string
  case_attempt :: int
  case_project :: string
  llm_label :: "string option"
  llm_reason :: "string option"

record summary_counts =
  total_n :: int
  passed :: int
  failed :: int
  skipped :: int

text \<open>
  \<open>UIExecState\<close> is a \<open>TypedDict\<close> with \<open>total=False\<close>: every key may be absent, which
  is the value \<open>None\<close> of the field here.
\<close>

record 'f state =
  project :: "string option"
  cwd :: "string option"
  cmd :: "string list option"
  junit_path :: "string option"
  env :: "(string \<times> string) list option"
  attempt :: "int option"
  max_attempts :: "int option"
  approved :: "bool option"
  run_rc :: "int option"
  stdout :: "string option"
  stderr :: "string option"
  results :: "'f tcase list option"
  summary :: "summary_counts option"
  errors :: "string list option"
  policy :: "string option"
  retry_scope :: "string option"
  llm_summary :: "string option"
  memory_notes :: "string list option"

text \<open>\<open>d.setdefault(k, v)\<close> on one key: an absent key gets \<open>v\<close>, a present one stays.\<close>

definition setdefault :: "'a option \<Rightarrow> 'a \<Rightarrow> 'a option" where
  "setdefault cur d = (case cur of None \<Rightarrow> Some d | Some v \<Rightarrow> Some v)"

text \<open>\<open>d.get(k, v)\<close> on one key.\<close>

definition get_or :: "'a option \<Rightarrow> 'a \<Rightarrow> 'a" where
  "get_or cur d = (case cur of None \<Rightarrow> d | Some v \<Rightarrow> v)"

text \<open>\<open>int(d.get(k, v) or v)\<close>: an absent key and the value 0 both read as \<open>v\<close>.\<close>

definition int_or :: "int option \<Rightarrow> int \<Rightarrow> int" where
  "int_or cur d = (case cur of None \<Rightarrow> d | Some n \<Rightarrow> if n = 0 then d else n)"

text \<open>\<open>errors = s.setdefault("errors", []); errors.append(msg)\<close>.\<close>

definition append_error :: "string \<Rightarrow> 'f state \<Rightarrow> 'f state" where
  "append_error msg s = s\<lparr>errors := Some (get_or (errors s) [] @ [msg])\<rparr>"

section \<open>The driver's initial state\<close>

text \<open>
  \<open>main\<close> of the command line driver starts the run from the seven keys that its flags
  give; every other key is absent.
\<close>

definition initial_state ::
  "string \<Rightarrow> string \<Rightarrow> int \<Rightarrow> string \<Rightarrow> string \<Rightarrow> (string \<times> string) list \<Rightarrow> 'f state" where
  "initial_state cwd_arg junit_arg max_retries policy_arg scope_arg env_overrides =
     \<lparr>project = Some ''ui'', cwd = Some cwd_arg, cmd = None, junit_path = Some junit_arg,
      env = Some env_overrides, attempt = None, max_attempts = Some max_retries,
      approved = None, run_rc = None, stdout = None, stderr = None, results = None,
      summary = None, errors = None, policy = Some policy_arg,
      retry_scope = Some scope_arg, llm_summary = None, memory_notes = None\<rparr>"

section \<open>Node 1: prepare config\<close>

definition empty_summary :: summary_counts where
  "empty_summary = \<lparr>total_n = 0, passed = 0, failed = 0, skipped = 0\<rparr>"

definition prepare_config :: "'f state \<Rightarrow> 'f state" where
  "prepare_config s =
     s\<lparr>project := setdefault (project s) ''ui'',
       cwd := setdefault (cwd s) ''.'',
       cmd := (case cmd s of None \<Rightarrow> Some [''npm'', ''run'', ''test:ui''] | Some c \<Rightarrow> Some c),
       junit_path := setdefault (junit_path s) ''results/junit-ui.xml'',
       env := setdefault (env s) [],
       attempt := setdefault (attempt s) 1,
       max_attempts := setdefault (max_attempts s) 2,
       approved := setdefault (approved s) True,
       results := setdefault (results s) [],
       summary := setdefault (summary s) empty_summary,
       errors := setdefault (errors s) [],
       policy := setdefault (policy s) ''flaky_only'',
       retry_scope := setdefault (retry_scope s) ''full'',
       llm_summary := setdefault (llm_summary s) []\<rparr>"

section \<open>Rule-based classifier and router\<close>

definition transient_signals :: "string list" where
  "transient_signals =
     [''not visible'', ''timeout'', ''timed out'', ''network'', ''navigation'', ''to be visible'']"

definition is_retry_eligible_ui :: "'f tcase \<Rightarrow> bool" where
  "is_retry_eligible_ui c =
     (let title = lower (name c); msg = lower (message c); dets = lower (details c)
      in if str_in ''@flaky'' title then True
         else list_ex (\<lambda>sig. str_in sig msg) transient_signals
              \<or> list_ex (\<lambda>sig. str_in sig dets) transient_signals)"

text \<open>The failed cases of the current attempt, as the router and the triage select them.\<close>

definition failed_cases_of :: "int \<Rightarrow> 'f tcase list \<Rightarrow> 'f tcase list" where
  "failed_cases_of attempt_now rs =
     filter (\<lambda>c. case_attempt c = attempt_now \<and> status c = ''failed'') rs"

definition decide_after_approval :: "'f state \<Rightarrow> string" where
  "decide_after_approval st =
     (if int_or (map_option failed (summary st)) 0 = 0 then ''end''
      else if policy st = Some ''none'' then ''end''
      else if approved st = Some False then ''end''
      else if int_or (attempt st) 1 \<ge> int_or (max_attempts st) 1 then ''end''
      else
        let attempt_now = int_or (attempt st) 1;
            failed_cases = failed_cases_of attempt_now (get_or (results st) [])
        in if policy st = Some ''always'' then ''retry''
           else if list_ex (\<lambda>c. llm_label c \<noteq> None) failed_cases then
             (if list_ex (\<lambda>c. lower (get_or (llm_label c) []) = ''transient'') failed_cases
              then ''retry'' else ''end'')
           else if list_ex is_retry_eligible_ui failed_cases then ''retry''
           else ''end'')"

section \<open>Node 5: retry bookkeeping\<close>

definition retry_once :: "'f state \<Rightarrow> 'f state" where
  "retry_once s = s\<lparr>attempt := Some (int_or (attempt s) 1 + 1)\<rparr>"

section \<open>The outside world\<close>

text \<open>
  A JUnit report as \<open>xml.etree.ElementTree\<close> presents it: an element has a tag, its
  attributes, an optional text, an optional tail and its children.
\<close>

datatype element =
  Element (el_tag: string) (el_attrib: "(string \<times> string) list")
    (el_text: "string option") (el_tail: "string option") (el_children: "element list")

text \<open>
  What one attempt takes from outside the program: the file system, the XML parser, the
  child process, the chat collaborator and standard input, together with the library
  functions that are left abstract (\<open>pathlib\<close> and \<open>float\<close>). An \<open>Inl\<close> is the
  text of the exception the call raises.
\<close>

record 'f world =
  path_str :: "string \<Rightarrow> string"
  path_join :: "string \<Rightarrow> string \<Rightarrow> string"
  path_exists :: "string \<Rightarrow> bool"
  et_parse :: "string \<Rightarrow> string + element"
  py_float :: "string \<Rightarrow> string + 'f"
  float_zero :: 'f
  os_environ :: "(string \<times> string) list"
  subprocess_run ::
    "string list \<Rightarrow> string \<Rightarrow> (string \<times> string) list \<Rightarrow> string + (int \<times> string \<times> string)"
  llm_reply ::
    "int \<Rightarrow> string option \<Rightarrow> 'f tcase list \<Rightarrow> string + (string \<times> (string \<times> string) list list)"
  input_line :: "string option"

section \<open>Node 2: execute tests\<close>

text \<open>\<open>env.update(extra_env)\<close> on dictionaries kept as association lists.\<close>

definition env_update :: "(string \<times> string) list \<Rightarrow> (string \<times> string) list \<Rightarrow> (string \<times> string) list" where
  "env_update base extra = fold (\<lambda>(k, v). AList.update k v) extra base"

definition execute_tests :: "'f world \<Rightarrow> 'f state \<Rightarrow> 'f state" where
  "execute_tests w s =
     (let cwd_path = path_str w (get_or (cwd s) ''.'')
      in if \<not> path_exists w cwd_path then
           (append_error (''[execute_tests] cwd not found: '' @ cwd_path) s)
             \<lparr>run_rc := Some 2, stdout := Some [],
              stderr := Some (''Directory not found: '' @ cwd_path)\<rparr>
         else
           (case subprocess_run w (get_or (cmd s) []) cwd_path
                   (env_update (os_environ w) (get_or (env s) [])) of
              Inr (rc, out, err) \<Rightarrow> s\<lparr>run_rc := Some rc, stdout := Some out, stderr := Some err\<rparr>
            | Inl e \<Rightarrow>
                (append_error e s)
                  \<lparr>run_rc := Some 2, stdout := Some [],
                   stderr := Some (''[execute_tests] Exception: '' @ e)\<rparr>))"

section \<open>Node 3: parse results\<close>

text \<open>\<open>root.iter(tag)\<close>: the element itself and all its descendants, in document order.\<close>

fun iter_all :: "element \<Rightarrow> element list" where
  "iter_all (Element t a tx ta cs) = Element t a tx ta cs # concat (map iter_all cs)"

definition iter :: "string \<Rightarrow> element \<Rightarrow> element list" where
  "iter t root = filter (\<lambda>e. el_tag e = t) (iter_all root)"

text \<open>\<open>tc.find(tag)\<close>: the first child with that tag.\<close>

definition find_child :: "string \<Rightarrow> element \<Rightarrow> element option" where
  "find_child t e = find (\<lambda>ch. el_tag ch = t) (el_children e)"

text \<open>\<open>attrib.get(k, d)\<close>.\<close>

definition attr_get :: "(string \<times> string) list \<Rightarrow> string \<Rightarrow> string \<Rightarrow> string" where
  "attr_get a k d = (case map_of a k of None \<Rightarrow> d | Some v \<Rightarrow> v)"

text \<open>\<open>if x: parts.append(str(x))\<close> for an optional text.\<close>

definition text_part :: "string option \<Rightarrow> string list" where
  "text_part t = (case t of None \<Rightarrow> [] | Some x \<Rightarrow> if x = [] then [] else [x])"

definition failure_details :: "element \<Rightarrow> string" where
  "failure_details fe =
     (let parts = text_part (el_text fe)
                  @ concat (map (\<lambda>ch. text_part (el_text ch) @ text_part (el_tail ch)) (el_children fe))
      in join [CHR 0x0A] (map strip (filter (\<lambda>p. p \<noteq> [] \<and> strip p \<noteq> []) parts)))"

text \<open>\<open>float(tc.attrib.get("time", "0") or 0.0)\<close>.\<close>

definition case_time :: "'f world \<Rightarrow> element \<Rightarrow> string + 'f" where
  "case_time w tc =
     (let t = attr_get (el_attrib tc) ''time'' ''0''
      in if t = [] then Inr (float_zero w) else py_float w t)"

text \<open>The body of the loop over the test cases, up to the dictionary it appends.\<close>

definition parse_testcase :: "'f world \<Rightarrow> int \<Rightarrow> element \<Rightarrow> string + 'f tcase" where
  "parse_testcase w att tc =
     (case case_time w tc of
        Inl e \<Rightarrow> Inl e
      | Inr tm \<Rightarrow>
          (let base = \<lparr>name = attr_get (el_attrib tc) ''name'' [],
                       suite = attr_get (el_attrib tc) ''classname'' [],
                       time_s = tm, status = ''passed'', message = [], details = [],
                       case_attempt = att, case_project = ''UI'',
                       llm_label = None, llm_reason = None\<rparr>
           in case find_child ''failure'' tc of
                Some fe \<Rightarrow>
                  Inr (base\<lparr>status := ''failed'',
                            message := strip (attr_get (el_attrib fe) ''message'' []),
                            details := failure_details fe\<rparr>)
              | None \<Rightarrow>
                  (case find_child ''skipped'' tc of
                     Some sk \<Rightarrow> Inr (base\<lparr>status := ''skipped''\<rparr>)
                   | None \<Rightarrow> Inr base)))"

text \<open>
  The loop, with its three counters and the list of cases. An exception leaves the loop
  at once; nothing of the attempt is kept then.
\<close>

fun parse_loop ::
  "'f world \<Rightarrow> int \<Rightarrow> element list \<Rightarrow> int \<times> int \<times> int \<times> 'f tcase list
     \<Rightarrow> string + (int \<times> int \<times> int \<times> 'f tcase list)" where
  "parse_loop w att [] acc = Inr acc"
| "parse_loop w att (tc # tcs) (p, f, k, cases) =
     (case parse_testcase w att tc of
        Inl e \<Rightarrow> Inl e
      | Inr c \<Rightarrow>
          parse_loop w att tcs
            (if status c = ''passed'' then (p + 1, f, k, cases @ [c])
             else if status c = ''failed'' then (p, f + 1, k, cases @ [c])
             else (p, f, k + 1, cases @ [c])))"

definition junit_file :: "'f world \<Rightarrow> 'f state \<Rightarrow> string" where
  "junit_file w s =
     path_join w (get_or (cwd s) ''.'') (get_or (junit_path s) ''results/junit-ui.xml'')"

definition parse_results :: "'f world \<Rightarrow> 'f state \<Rightarrow> 'f state" where
  "parse_results w s =
     (if \<not> path_exists w (junit_file w s) then
        append_error (''[parse_results] JUnit not found at: '' @ junit_file w s) s
      else
        (case et_parse w (junit_file w s) of
           Inl e \<Rightarrow> append_error (''[parse_results] Exception: '' @ e) s
         | Inr root \<Rightarrow>
             (let testcases = iter ''testcase'' root;
                  total = int (length testcases)
              in case parse_loop w (int_or (attempt s) 1) testcases (0, 0, 0, []) of
                   Inl e \<Rightarrow> append_error (''[parse_results] Exception: '' @ e) s
                 | Inr (p, f, k, cases) \<Rightarrow>
                     s\<lparr>results := Some (get_or (results s) [] @ cases),
                       summary := Some \<lparr>total_n = total, passed = p, failed = f, skipped = k\<rparr>\<rparr>)))"

section \<open>Node 3.5: LLM triage\<close>

text \<open>
  \<open>by_name = {lbl.get("name", ""): lbl for lbl in labels}\<close> followed by
  \<open>by_name.get(name)\<close>: of several labels with one name the last one stays.
\<close>

definition by_name_get :: "(string \<times> string) list list \<Rightarrow> string \<Rightarrow> (string \<times> string) list option" where
  "by_name_get labels n = find (\<lambda>lbl. attr_get lbl ''name'' [] = n) (rev labels)"

definition apply_label :: "(string \<times> string) list list \<Rightarrow> 'f tcase \<Rightarrow> 'f tcase" where
  "apply_label labels c =
     (case by_name_get labels (name c) of
        None \<Rightarrow> c
      | Some lbl \<Rightarrow>
          if lbl = [] then c
          else c\<lparr>llm_label := Some (strip (attr_get lbl ''label'' [])),
                 llm_reason := Some (strip (attr_get lbl ''reason'' []))\<rparr>)"

definition llm_triage :: "'f world \<Rightarrow> 'f state \<Rightarrow> 'f state" where
  "llm_triage w s =
     (let attempt_now = int_or (attempt s) 1;
          rs = get_or (results s) [];
          failed_now = failed_cases_of attempt_now rs
      in if failed_now = [] then s
         else
           (case llm_reply w attempt_now (policy s) failed_now of
              Inl e \<Rightarrow> append_error (''[llm_triage] Exception: '' @ e) s
            | Inr (summary_text, labels) \<Rightarrow>
                s\<lparr>results :=
                    Some (map (\<lambda>c. if case_attempt c = attempt_now \<and> status c = ''failed''
                                    then apply_label labels c else c) rs),
                  llm_summary := Some summary_text\<rparr>))"

section \<open>Node 6: approval checkpoint\<close>

definition approval_checkpoint :: "'f world \<Rightarrow> 'f state \<Rightarrow> 'f state" where
  "approval_checkpoint w s =
     (if int_or (map_option failed (summary s)) 0 = 0 then s
      else if policy s = Some ''none'' then s
      else if int_or (attempt s) 1 \<ge> int_or (max_attempts s) 1 then s
      else
        (case input_line w of
           None \<Rightarrow> s
         | Some line \<Rightarrow>
             (let ans = lower (strip line)
              in if ans = ''approve'' \<or> ans = ''deny''
                 then s\<lparr>approved := Some (ans = ''approve'')\<rparr> else s)))"

section \<open>Run memory\<close>

text \<open>
  The two tables of the SQLite file, with the counters behind \<open>AUTOINCREMENT\<close>. A
  timestamp is the number of seconds of \<open>CURRENT_TIMESTAMP\<close>, counted from 1 January
  1970: SQLite compares the texts \<open>YYYY-MM-DD HH:MM:SS\<close>, and for the instants a clock
  gives their order is the order of the instants.
\<close>

record run_row =
  run_id :: nat
  run_project :: string
  ts :: int
  run_total :: int
  run_passed :: int
  run_failed :: int
  run_skipped :: int
  run_llm_summary :: string

record result_row =
  row_id :: nat
  row_run_id :: nat
  row_name :: string
  row_suite :: string
  row_status :: string
  row_message :: string
  row_details :: string
  row_attempt :: int

record store =
  runs :: "run_row list"
  result_rows :: "result_row list"
  runs_seq :: nat
  results_seq :: nat

definition init_db :: store where
  "init_db = \<lparr>runs = [], result_rows = [], runs_seq = 0, results_seq = 0\<rparr>"

text \<open>One \<open>INSERT INTO results\<close> of \<open>save_run\<close>.\<close>

definition insert_result :: "nat \<Rightarrow> 'f tcase \<Rightarrow> store \<Rightarrow> store" where
  "insert_result rid c db =
     db\<lparr>result_rows := result_rows db @
            [\<lparr>row_id = results_seq db + 1, row_run_id = rid, row_name = name c,
              row_suite = suite c, row_status = status c, row_message = message c,
              row_details = details c, row_attempt = case_attempt c\<rparr>],
        results_seq := results_seq db + 1\<rparr>"

text \<open>\<open>save_run\<close> at the instant \<open>now\<close>.\<close>

definition save_run ::
  "int \<Rightarrow> string \<Rightarrow> summary_counts \<Rightarrow> 'f tcase list \<Rightarrow> string \<Rightarrow> store \<Rightarrow> store" where
  "save_run now proj sm rs llm db =
     (let rid = runs_seq db + 1;
          db1 = db\<lparr>runs := runs db @
                   [\<lparr>run_id = rid, run_project = proj, ts = now, run_total = total_n sm,
                     run_passed = passed sm, run_failed = failed sm,
                     run_skipped = skipped sm, run_llm_summary = llm\<rparr>],
                 runs_seq := rid\<rparr>
      in fold (insert_result rid) rs db1)"

text \<open>
  SQLite represents the instants from Julian day 0 (noon of 24 November 4714 BC) to the
  last second of the year 9999; both are given in seconds from 1 January 1970.
\<close>

definition julian_day_zero :: int where
  "julian_day_zero = - 210866760000"

definition last_instant :: int where
  "last_instant = 253402300799"

definition sqlite_instant :: "int \<Rightarrow> bool" where
  "sqlite_instant t = (julian_day_zero \<le> t \<and> t \<le> last_instant)"

text \<open>
  \<open>datetime('now', '-N days')\<close> with \<open>N = str(days)\<close>. A negative \<open>days\<close> gives the
  modifier \<open>--N days\<close>, which SQLite rejects; and a result outside the instants SQLite
  represents is no date. The value is \<open>NULL\<close> in both cases.
\<close>

definition sqlite_days_before :: "int \<Rightarrow> int \<Rightarrow> int option" where
  "sqlite_days_before now days =
     (if days < 0 then None
      else if sqlite_instant (now - days * 86400) then Some (now - days * 86400)
      else None)"

text \<open>
  \<open>find_recurrences\<close> at the instant \<open>now\<close>: the count of the rows of the join. A
  comparison with \<open>NULL\<close> selects no row.
\<close>

definition find_recurrences :: "store \<Rightarrow> int \<Rightarrow> string \<Rightarrow> string \<Rightarrow> int option \<Rightarrow> int" where
  "find_recurrences db now nm msg days =
     (case days of
        Some d \<Rightarrow>
          (case sqlite_days_before now d of
             None \<Rightarrow> 0
           | Some cutoff \<Rightarrow>
               int (length
                 [(r, u). r \<leftarrow> result_rows db, u \<leftarrow> runs db,
                    row_run_id r = run_id u \<and> row_name r = nm \<and> row_status r = ''failed''
                    \<and> row_message r = msg \<and> cutoff \<le> ts u]))
      | None \<Rightarrow>
          int (length
            [r \<leftarrow> result_rows db.
               row_name r = nm \<and> row_status r = ''failed'' \<and> row_message r = msg]))"

text \<open>
  What the schema keeps true of a store: \<open>runs.id\<close> is a primary key, no identifier is
  beyond the counter of \<open>AUTOINCREMENT\<close>, and every result row names a run that was
  inserted before it. The empty store is so, and \<open>save_run\<close> keeps it so.
\<close>

definition store_ok :: "store \<Rightarrow> bool" where
  "store_ok db =
     (distinct (map run_id (runs db))
      \<and> list_all (\<lambda>u. run_id u \<le> runs_seq db) (runs db)
      \<and> list_all (\<lambda>r. row_run_id r \<le> runs_seq db) (result_rows db))"

section \<open>Node 7: persist to memory\<close>

text \<open>
  What the database calls of one \<open>persist_to_memory\<close> meet: the instant of the save, the
  instant of the lookup for the case at each index of the results, and the exception of
  each call, if it raises one.
\<close>

record db_calls =
  save_time :: int
  save_error :: "string option"
  lookup_time :: "nat \<Rightarrow> int"
  lookup_error :: "nat \<Rightarrow> string option"

definition recurrence_note :: "db_calls \<Rightarrow> store \<Rightarrow> nat \<Rightarrow> 'f tcase \<Rightarrow> string" where
  "recurrence_note io db i c =
     (case lookup_error io i of
        Some e \<Rightarrow> name c @ '': memory lookup error '' @ e
      | None \<Rightarrow>
          (let count = find_recurrences db (lookup_time io i) (name c) (message c) (Some 7)
           in if count > 1 then name c @ '': seen '' @ str_int count @ '' times in last 7 days''
              else name c @ '': NEW failure''))"

definition persist_to_memory :: "db_calls \<Rightarrow> store \<Rightarrow> 'f state \<Rightarrow> store \<times> 'f state" where
  "persist_to_memory io db s =
     (let sm = get_or (summary s) empty_summary;
          rs = get_or (results s) [];
          llm = get_or (llm_summary s) []
      in case save_error io of
           Some e \<Rightarrow> (db, append_error (''[persist_to_memory] Save error: '' @ e) s)
         | None \<Rightarrow>
             (let db' = save_run (save_time io) ''UI'' sm rs llm db;
                  notes = map (\<lambda>(i, c). recurrence_note io db' i c)
                            (filter (\<lambda>(i, c). status c = ''failed'') (enumerate 0 rs))
              in (db', s\<lparr>memory_notes := Some notes\<rparr>)))"

section \<open>Attempts of one run\<close>

text \<open>
  Modelled from the spec: the workflow graph (\<open>graph.py\<close>) that wires the nodes is not
  part of the sources. One attempt runs Executing, Parsing, Classifying and
  AwaitingApproval in this order; a retry is \<open>retry_once\<close> followed by the next attempt.
  Every attempt meets a world of its own.
\<close>

definition attempt_nodes :: "'f world \<Rightarrow> 'f state \<Rightarrow> 'f state" where
  "attempt_nodes w s = approval_checkpoint w (llm_triage w (parse_results w (execute_tests w s)))"

text \<open>The states at the end of each attempt, when every attempt but the last is retried.\<close>

fun attempt_states :: "'f world list \<Rightarrow> 'f state \<Rightarrow> 'f state list" where
  "attempt_states [] s = []"
| "attempt_states (w # ws) s = attempt_nodes w s # attempt_states ws (retry_once (attempt_nodes w s))"

section \<open>Notions of the specification\<close>

text \<open>
  "Case-insensitively": two characters are the same letter when they are equal or when
  one is a capital of the alphabet and the other one its small letter; two texts are the
  same up to case when they are so character by character; and \<open>s\<close> contains \<open>sub\<close>,
  case-insensitively, when some stretch of \<open>s\<close> is the same as \<open>sub\<close> up to case. The
  notions are written out on the alphabet and use nothing of the program.
\<close>

definition same_letter :: "char \<Rightarrow> char \<Rightarrow> bool" where
  "same_letter a b =
     (a = b
      \<or> (a, b) \<in> set (zip ''ABCDEFGHIJKLMNOPQRSTUVWXYZ'' ''abcdefghijklmnopqrstuvwxyz'')
      \<or> (b, a) \<in> set (zip ''ABCDEFGHIJKLMNOPQRSTUVWXYZ'' ''abcdefghijklmnopqrstuvwxyz''))"

definition same_ci :: "string \<Rightarrow> string \<Rightarrow> bool" where
  "same_ci s t = list_all2 same_letter s t"

definition contains_ci :: "string \<Rightarrow> string \<Rightarrow> bool" where
  "contains_ci sub s = (\<exists>pre mid post. s = pre @ mid @ post \<and> same_ci mid sub)"

text \<open>
  "Rule-eligible", as the specification words the rule-based tier: the name contains the
  tag, or the message or the details contain one of the six substrings.
\<close>

definition rule_eligible :: "'f tcase \<Rightarrow> bool" where
  "rule_eligible c =
     (contains_ci ''@flaky'' (name c)
      \<or> (\<exists>sig \<in> set [''not visible'', ''timeout'', ''timed out'', ''network'', ''navigation'',
                        ''to be visible''].
            contains_ci sig (message c) \<or> contains_ci sig (details c)))"

text \<open>
  A plain character is no capital and no small letter beyond the alphabet: \<open>lower\<close>
  yields it exactly from itself and, if it is a small letter, from its capital.
\<close>

definition plain_char :: "char \<Rightarrow> bool" where
  "plain_char x = (x \<notin> set upper_chars \<and> x \<notin> set (drop 26 lower_chars))"

text \<open>
  "An unset field receives its default, a field that is set is not overwritten": the
  value of one key before and after the merge.
\<close>

definition merged_default :: "'a option \<Rightarrow> 'a \<Rightarrow> 'a option \<Rightarrow> bool" where
  "merged_default before d after =
     (case before of None \<Rightarrow> after = Some d | Some v \<Rightarrow> after = Some v)"

text \<open>"A failure element is present": some child of the test case has that tag.\<close>

definition has_child :: "string \<Rightarrow> element \<Rightarrow> bool" where
  "has_child t e = (\<exists>ch \<in> set (el_children e). el_tag ch = t)"

definition expected_status :: "element \<Rightarrow> string" where
  "expected_status tc =
     (if has_child ''failure'' tc then ''failed''
      else if has_child ''skipped'' tc then ''skipped'' else ''passed'')"

text \<open>
  "The parse of the report succeeds": the file is there, it is well-formed XML with the
  root \<open>root\<close>, and \<open>float\<close> accepts the \<open>time\<close> of every test case.
\<close>

definition report_parses :: "'f world \<Rightarrow> 'f state \<Rightarrow> element \<Rightarrow> bool" where
  "report_parses w s root =
     (path_exists w (junit_file w s) \<and> et_parse w (junit_file w s) = Inr root
      \<and> list_all (\<lambda>tc. \<not> isl (case_time w tc)) (iter ''testcase'' root))"

text \<open>The number of cases with one status.\<close>

definition count_status :: "string \<Rightarrow> 'f tcase list \<Rightarrow> int" where
  "count_status st cs = int (length (filter (\<lambda>c. status c = st) cs))"

text \<open>
  "An exact match on name and message" for a stored row and for a case of a run, "the run
  of a row lies in the window", and "the row was written for this case".
\<close>

definition row_matches :: "string \<Rightarrow> string \<Rightarrow> result_row \<Rightarrow> bool" where
  "row_matches nm msg r = (row_status r = ''failed'' \<and> row_name r = nm \<and> row_message r = msg)"

definition case_matches :: "string \<Rightarrow> string \<Rightarrow> 'f tcase \<Rightarrow> bool" where
  "case_matches nm msg c = (status c = ''failed'' \<and> name c = nm \<and> message c = msg)"

definition run_in_window :: "store \<Rightarrow> int \<Rightarrow> nat \<Rightarrow> bool" where
  "run_in_window db cutoff rid = (\<exists>u \<in> set (runs db). run_id u = rid \<and> cutoff \<le> ts u)"

definition row_of_case :: "nat \<Rightarrow> result_row \<Rightarrow> 'f tcase \<Rightarrow> bool" where
  "row_of_case rid r c =
     (row_run_id r = rid \<and> row_name r = name c \<and> row_status r = status c
      \<and> row_message r = message c)"

section \<open>Example inputs\<close>

text \<open>
  A case as \<open>parse_results\<close> and \<open>llm_triage\<close> leave it, and a state in the middle of a
  run, each from the few values that differ between the examples.
\<close>

definition mk_case :: "string \<Rightarrow> string \<Rightarrow> string \<Rightarrow> int \<Rightarrow> string option \<Rightarrow> string tcase" where
  "mk_case n st msg att lbl =
     \<lparr>name = n, suite = ''ui'', time_s = ''0.0'', status = st, message = msg, details = [],
      case_attempt = att, case_project = ''UI'', llm_label = lbl, llm_reason = map_option (\<lambda>_. ''because'') lbl\<rparr>"

definition mk_state :: "string \<Rightarrow> bool \<Rightarrow> int \<Rightarrow> int \<Rightarrow> summary_counts \<Rightarrow> string tcase list \<Rightarrow> string state" where
  "mk_state pol appr att mx sm rs =
     \<lparr>project = Some ''ui'', cwd = Some ''.'', cmd = Some [''npm'', ''run'', ''test:ui''],
      junit_path = Some ''results/junit-ui.xml'', env = Some [], attempt = Some att,
      max_attempts = Some mx, approved = Some appr, run_rc = Some 1, stdout = Some [],
      stderr = Some [], results = Some rs, summary = Some sm, errors = Some [],
      policy = Some pol, retry_scope = Some ''full'', llm_summary = Some [],
      memory_notes = None\<rparr>"

text \<open>
  States before the router: two failed cases of attempt 1 of 2, with the labels \<open>real\<close>
  and none, none at all, \<open>real\<close> twice, \<open>transient\<close> and none; and a run whose retry was
  denied under the policy \<open>always\<close>.
\<close>

definition real_label_state :: "string state" where
  "real_label_state =
     mk_state ''flaky_only'' True 1 2 \<lparr>total_n = 2, passed = 0, failed = 2, skipped = 0\<rparr>
       [mk_case ''login'' ''failed'' ''expected 200 but got 500'' 1 (Some ''real''),
        mk_case ''checkout @flaky'' ''failed'' ''Timeout waiting for element'' 1 None]"

definition flaky_login_case :: "string tcase" where
  "flaky_login_case =
     \<lparr>name = ''login @flaky should succeed'', suite = ''auth'', time_s = ''0.0'', status = ''failed'',
      message = ''expected 200 but got 500'', details = ''AssertionError'', case_attempt = 1,
      case_project = ''UI'', llm_label = None, llm_reason = None\<rparr>"

text \<open>The tag in capitals, and a signal in mixed case in the message alone.\<close>

definition capital_tag_case :: "string tcase" where
  "capital_tag_case = flaky_login_case\<lparr>name := ''Login @FLAKY Should Succeed''\<rparr>"

definition mixed_signal_case :: "string tcase" where
  "mixed_signal_case =
     flaky_login_case\<lparr>name := ''checkout'', message := ''Page NaviGation was interrupted''\<rparr>"

text \<open>The word without the tag sign.\<close>

definition untagged_case :: "string tcase" where
  "untagged_case = flaky_login_case\<lparr>name := ''login flaky should succeed''\<rparr>"

definition two_failures_summary :: summary_counts where
  "two_failures_summary = \<lparr>total_n = 2, passed = 0, failed = 2, skipped = 0\<rparr>"

definition unlabelled_state :: "string state" where
  "unlabelled_state =
     mk_state ''flaky_only'' True 1 2 two_failures_summary
       [mk_case ''login'' ''failed'' ''expected 200 but got 500'' 1 None,
        mk_case ''checkout @flaky'' ''failed'' ''Timeout waiting for element'' 1 None]"

definition real_only_state :: "string state" where
  "real_only_state =
     mk_state ''flaky_only'' True 1 2 two_failures_summary
       [mk_case ''login'' ''failed'' ''expected 200 but got 500'' 1 (Some ''real''),
        mk_case ''checkout @flaky'' ''failed'' ''Timeout waiting for element'' 1 (Some ''real'')]"

definition one_transient_state :: "string state" where
  "one_transient_state =
     mk_state ''flaky_only'' True 1 2 two_failures_summary
       [mk_case ''login'' ''failed'' ''expected 200 but got 500'' 1 (Some ''transient''),
        mk_case ''checkout'' ''failed'' ''expected 3 items'' 1 None]"

text \<open>
  States in attempt 2 of 3 whose attempt 1 left a label: \<open>transient\<close> then, \<open>real\<close> now;
  and \<open>real\<close> then, none now.
\<close>

definition earlier_transient_state :: "string state" where
  "earlier_transient_state =
     mk_state ''flaky_only'' True 2 3 \<lparr>total_n = 1, passed = 0, failed = 1, skipped = 0\<rparr>
       [mk_case ''checkout @flaky'' ''failed'' ''Timeout waiting for element'' 1 (Some ''transient''),
        mk_case ''checkout @flaky'' ''failed'' ''Timeout waiting for element'' 2 (Some ''real'')]"

definition earlier_real_state :: "string state" where
  "earlier_real_state =
     mk_state ''flaky_only'' True 2 3 \<lparr>total_n = 1, passed = 0, failed = 1, skipped = 0\<rparr>
       [mk_case ''checkout @flaky'' ''failed'' ''Timeout waiting for element'' 1 (Some ''real''),
        mk_case ''checkout @flaky'' ''failed'' ''Timeout waiting for element'' 2 None]"

definition denied_always_state :: "string state" where
  "denied_always_state =
     mk_state ''always'' False 1 2 two_failures_summary
       [mk_case ''login'' ''failed'' ''expected 200 but got 500'' 1 None,
        mk_case ''checkout'' ''failed'' ''expected 3 items'' 1 None]"

text \<open>
  The report of the specification's example: one failure with the message
  \<open>Timeout waiting for element\<close>, one skipped case and one passed case.
\<close>

definition sample_report :: element where
  "sample_report =
     Element ''testsuites'' [] None None
       [Element ''testsuite'' [(''name'', ''ui'')] None None
          [Element ''testcase'' [(''name'', ''login''), (''classname'', ''auth''), (''time'', ''1.5'')]
             None None
             [Element ''failure'' [(''message'', '' Timeout waiting for element '')]
                (Some ''  locator.click: Timeout 30000ms exceeded  '') None []],
           Element ''testcase'' [(''name'', ''export''), (''classname'', ''reports'')] None None
             [Element ''skipped'' [] None None []],
           Element ''testcase'' [(''name'', ''home''), (''classname'', ''nav''), (''time'', ''0.2'')]
             None None []]]"

text \<open>
  A world with that report at \<open>./results/junit-ui.xml\<close>, and the same world without the
  file. In both the float of a text is kept as the text itself.
\<close>

definition sample_world :: "string world" where
  "sample_world =
     \<lparr>path_str = (\<lambda>p. p),
      path_join = (\<lambda>a b. a @ ''/'' @ b),
      path_exists = (\<lambda>p. p = ''.'' \<or> p = ''./results/junit-ui.xml''),
      et_parse = (\<lambda>p. if p = ''./results/junit-ui.xml'' then Inr sample_report
                      else Inl ''No such file or directory''),
      py_float = (\<lambda>t. Inr t),
      float_zero = ''0.0'',
      os_environ = [(''PATH'', ''/usr/bin'')],
      subprocess_run = (\<lambda>c d e. Inr (1, ''1 failed'', [])),
      llm_reply = (\<lambda>a p cs. Inl ''connection refused''),
      input_line = None\<rparr>"

definition missing_report_world :: "string world" where
  "missing_report_world = sample_world\<lparr>path_exists := (\<lambda>p. p = ''.'')\<rparr>"

text \<open>A retry attempt whose first attempt counted three cases, two of them failed.\<close>

definition second_attempt_state :: "string state" where
  "second_attempt_state =
     mk_state ''always'' True 2 3 \<lparr>total_n = 3, passed = 1, failed = 2, skipped = 0\<rparr>
       [mk_case ''login'' ''failed'' ''expected 200 but got 500'' 1 None,
        mk_case ''checkout'' ''failed'' ''expected 3 items'' 1 None,
        mk_case ''home'' ''passed'' [] 1 None]"

text \<open>The state of a first attempt: the driver's initial state, its defaults filled in.\<close>

definition driver_example_state :: "string state" where
  "driver_example_state = initial_state ''.'' ''results/junit-ui.xml'' 2 ''flaky_only'' ''full'' []"

definition first_attempt_state :: "string state" where
  "first_attempt_state = prepare_config driver_example_state"

text \<open>
  A failure of \<open>checkout_flow\<close> with the message \<open>Timeout\<close>; a run where it fails once,
  and a run where it fails in both attempts. The database calls of a run at the instant
  \<open>t\<close> raise nothing, and the lookups come a second after the save.
\<close>

definition timeout_case :: "int \<Rightarrow> string tcase" where
  "timeout_case att = mk_case ''checkout_flow'' ''failed'' ''Timeout'' att None"

definition one_failure_state :: "string state" where
  "one_failure_state =
     mk_state ''flaky_only'' True 1 2 \<lparr>total_n = 2, passed = 1, failed = 1, skipped = 0\<rparr>
       [timeout_case 1, mk_case ''home'' ''passed'' [] 1 None]"

definition repeated_failure_state :: "string state" where
  "repeated_failure_state =
     mk_state ''always'' True 2 2 \<lparr>total_n = 1, passed = 0, failed = 1, skipped = 0\<rparr>
       [timeout_case 1, timeout_case 2]"

definition calls_at :: "int \<Rightarrow> db_calls" where
  "calls_at t = \<lparr>save_time = t, save_error = None, lookup_time = (\<lambda>i. t + 1),
                 lookup_error = (\<lambda>i. None)\<rparr>"

text \<open>Two runs with the same failure, ten days apart.\<close>

definition two_runs_store :: store where
  "two_runs_store =
     fst (persist_to_memory (calls_at 864000)
            (fst (persist_to_memory (calls_at 0) init_db one_failure_state)) one_failure_state)"

section \<open>Strings: lemmas\<close>

lemma startswith_prefix: "startswith p s = prefix p s"
  by (induction p s rule: startswith.induct) auto

lemma str_in_sublist: "str_in sub s = sublist sub s"
proof (induction s)
  case Nil
  show ?case by simp
next
  case (Cons c cs)
  show ?case
  proof (cases sub)
    case Nil
    then show ?thesis by simp
  next
    case (Cons a as)
    then show ?thesis
      using Cons.IH by (simp add: startswith_prefix sublist_Cons_right)
  qed
qed

lemma map_eq_append3:
  assumes "map f s = ps @ sig @ ss"
  shows "\<exists>pre mid post. s = pre @ mid @ post \<and> map f mid = sig"
proof -
  from assms have "\<exists>us vs. s = us @ vs \<and> ps = map f us \<and> sig @ ss = map f vs"
    by (simp only: map_eq_append_conv)
  then obtain pre rest where s: "s = pre @ rest" and r: "map f rest = sig @ ss"
    by (elim exE conjE) (rule that, assumption, rule sym)
  from r have "\<exists>us vs. rest = us @ vs \<and> sig = map f us \<and> ss = map f vs"
    by (simp only: map_eq_append_conv)
  then obtain mid post where m: "rest = mid @ post" and m2: "sig = map f mid"
    by (elim exE conjE) (rule that)
  show ?thesis
    apply (rule exI [of _ pre])
    apply (rule exI [of _ mid])
    apply (rule exI [of _ post])
    apply (simp only: s m m2 [symmetric] simp_thms)
    done
qed

text \<open>The table of \<open>lower\<close>, read as a relation.\<close>

lemma upper_chars_split: "upper_chars = ''ABCDEFGHIJKLMNOPQRSTUVWXYZ'' @ drop 26 upper_chars"
  by code_simp

lemma lower_chars_split: "lower_chars = ''abcdefghijklmnopqrstuvwxyz'' @ drop 26 lower_chars"
  by code_simp

lemma lower_table_keys:
  "map fst (zip upper_chars lower_chars) = upper_chars" "distinct upper_chars"
  by code_simp+

lemma py_lower_char_iff:
  "(py_lower_char a = x)
     = ((a \<notin> set upper_chars \<and> a = x) \<or> (a, x) \<in> set (zip upper_chars lower_chars))"
proof -
  have d: "distinct (map fst (zip upper_chars lower_chars))"
    by (simp only: lower_table_keys)
  note some = map_of_eq_Some_iff [OF d]
  show ?thesis
  proof (cases "map_of (zip upper_chars lower_chars) a")
    case None
    then have "a \<notin> set upper_chars"
      using lower_table_keys(1) by (metis map_of_eq_None_iff set_map)
    moreover from None have "(a, x) \<notin> set (zip upper_chars lower_chars)"
      using some [of a x] by simp
    ultimately show ?thesis
      using None by (auto simp: py_lower_char_def)
  next
    case (Some l)
    then have in_l: "(a, l) \<in> set (zip upper_chars lower_chars)"
      using some [of a l] by simp
    then have "a \<in> set upper_chars"
      by (rule set_zip_leftD)
    moreover have "((a, x) \<in> set (zip upper_chars lower_chars)) = (l = x)"
      using some [of a x] Some by auto
    ultimately show ?thesis
      using Some by (simp add: py_lower_char_def)
  qed
qed

lemma zip_append_mem:
  assumes "length us = length ls"
  shows "((a, x) \<in> set (zip (us @ us') (ls @ ls')))
           = ((a, x) \<in> set (zip us ls) \<or> (a, x) \<in> set (zip us' ls'))"
  using assms by simp

lemma py_lower_char_plain:
  assumes "plain_char x"
  shows "(py_lower_char a = x) = same_letter a x"
proof -
  let ?U = "''ABCDEFGHIJKLMNOPQRSTUVWXYZ''" and ?L = "''abcdefghijklmnopqrstuvwxyz''"
  define U2 where "U2 = drop 26 upper_chars"
  define L2 where "L2 = drop 26 lower_chars"
  have up: "upper_chars = ?U @ U2" and lo: "lower_chars = ?L @ L2"
    unfolding U2_def L2_def by (rule upper_chars_split, rule lower_chars_split)
  from assms have a1: "x \<notin> set upper_chars" and nl: "x \<notin> set L2"
    by (simp_all add: plain_char_def L2_def)
  have nu: "x \<notin> set (?U @ U2)"
    using a1 by (simp only: up [symmetric] simp_thms)
  from nu have nU: "x \<notin> set ?U"
    by (simp only: set_append Un_iff simp_thms de_Morgan_disj)
  have z: "((a, x) \<in> set (zip (?U @ U2) (?L @ L2)))
             = ((a, x) \<in> set (zip ?U ?L) \<or> (a, x) \<in> set (zip U2 L2))"
    by (rule zip_append_mem) simp
  have n2: "(a, x) \<notin> set (zip U2 L2)"
    using nl by (meson set_zip_rightD)
  have n3: "(x, a) \<notin> set (zip ?U ?L)"
    using nU by (meson set_zip_leftD)
  have "(a \<notin> set (?U @ U2) \<and> a = x) = (a = x)"
    using nu by blast
  then have "(py_lower_char a = x) = (a = x \<or> (a, x) \<in> set (zip ?U ?L))"
    unfolding py_lower_char_iff up lo z using n2 by blast
  then show ?thesis
    unfolding same_letter_def using n3 by blast
qed

lemma map_eq_iff_list_all2: "(map f xs = ys) = list_all2 (\<lambda>x y. f x = y) xs ys"
  by (induction xs arbitrary: ys) (auto simp: list_all2_Cons1)

lemma lower_eq_same_ci:
  assumes "list_all plain_char sub"
  shows "(lower mid = sub) = same_ci mid sub"
proof -
  have "list_all2 (\<lambda>a x. py_lower_char a = x) mid sub = list_all2 same_letter mid sub"
    using assms
  proof (induction sub arbitrary: mid)
    case Nil
    show ?case by simp
  next
    case (Cons x sub)
    then show ?case
      by (cases mid) (simp_all add: py_lower_char_plain)
  qed
  then show ?thesis
    by (simp only: lower_def map_eq_iff_list_all2 same_ci_def)
qed

lemma str_in_lower_iff:
  assumes "list_all plain_char sig"
  shows "str_in sig (lower s) = contains_ci sig s"
proof
  assume "str_in sig (lower s)"
  then have "sublist sig (map py_lower_char s)"
    by (simp add: str_in_sublist lower_def)
  then obtain ps ss where "map py_lower_char s = ps @ sig @ ss"
    unfolding sublist_def by (elim exE)
  then have "\<exists>pre mid post. s = pre @ mid @ post \<and> map py_lower_char mid = sig"
    by (rule map_eq_append3)
  then have "\<exists>pre mid post. s = pre @ mid @ post \<and> same_ci mid sig"
    by (simp only: lower_def [symmetric] lower_eq_same_ci [OF assms])
  then show "contains_ci sig s"
    by (simp only: contains_ci_def)
next
  assume "contains_ci sig s"
  then have "\<exists>pre mid post. s = pre @ mid @ post \<and> lower mid = sig"
    by (simp only: contains_ci_def lower_eq_same_ci [OF assms])
  then obtain pre mid post where s: "s = pre @ mid @ post" and m: "lower mid = sig"
    by (elim exE conjE)
  have "lower s = lower pre @ sig @ lower post"
    by (simp add: s lower_def m [symmetric])
  then have "sublist sig (lower s)"
    unfolding sublist_def by (intro exI)
  then show "str_in sig (lower s)"
    by (simp only: str_in_sublist)
qed

lemma plain_patterns:
  "list_all plain_char ''@flaky''" "list_all plain_char ''not visible''"
  "list_all plain_char ''timeout''" "list_all plain_char ''timed out''"
  "list_all plain_char ''network''" "list_all plain_char ''navigation''"
  "list_all plain_char ''to be visible''" "list_all plain_char ''transient''"
  by code_simp+

lemma is_retry_eligible_ui_rule: "is_retry_eligible_ui c = rule_eligible c"
proof -
  note r = str_in_lower_iff [OF plain_patterns(1)] str_in_lower_iff [OF plain_patterns(2)]
    str_in_lower_iff [OF plain_patterns(3)] str_in_lower_iff [OF plain_patterns(4)]
    str_in_lower_iff [OF plain_patterns(5)] str_in_lower_iff [OF plain_patterns(6)]
    str_in_lower_iff [OF plain_patterns(7)]
  have ex: "list_ex P transient_signals
      = (P ''not visible'' \<or> P ''timeout'' \<or> P ''timed out'' \<or> P ''network''
         \<or> P ''navigation'' \<or> P ''to be visible'')" for P :: "string \<Rightarrow> bool"
    by (simp add: transient_signals_def)
  have bx: "(\<exists>sig \<in> set [''not visible'', ''timeout'', ''timed out'', ''network'', ''navigation'',
                        ''to be visible'']. Q sig)
      = (Q ''not visible'' \<or> Q ''timeout'' \<or> Q ''timed out'' \<or> Q ''network''
         \<or> Q ''navigation'' \<or> Q ''to be visible'')" for Q :: "string \<Rightarrow> bool"
    by (simp only: list.set bex_simps simp_thms)
  have "is_retry_eligible_ui c \<longleftrightarrow>
      str_in ''@flaky'' (lower (name c))
      \<or> (list_ex (\<lambda>sig. str_in sig (lower (message c))) transient_signals
         \<or> list_ex (\<lambda>sig. str_in sig (lower (details c))) transient_signals)"
    by (simp add: is_retry_eligible_ui_def Let_def)
  also have "\<dots> \<longleftrightarrow> contains_ci ''@flaky'' (name c)
      \<or> ((contains_ci ''not visible'' (message c) \<or> contains_ci ''timeout'' (message c)
           \<or> contains_ci ''timed out'' (message c) \<or> contains_ci ''network'' (message c)
           \<or> contains_ci ''navigation'' (message c) \<or> contains_ci ''to be visible'' (message c))
         \<or> (contains_ci ''not visible'' (details c) \<or> contains_ci ''timeout'' (details c)
           \<or> contains_ci ''timed out'' (details c) \<or> contains_ci ''network'' (details c)
           \<or> contains_ci ''navigation'' (details c) \<or> contains_ci ''to be visible'' (details c)))"
    by (simp only: ex r)
  also have "\<dots> \<longleftrightarrow> contains_ci ''@flaky'' (name c)
      \<or> (\<exists>sig \<in> set [''not visible'', ''timeout'', ''timed out'', ''network'', ''navigation'',
                        ''to be visible''].
            contains_ci sig (message c) \<or> contains_ci sig (details c))"
    unfolding bx by blast
  finally show ?thesis
    by (simp only: rule_eligible_def)
qed

section \<open>The rule-based tier\<close>

text \<open>
  C4. A case is rule-eligible exactly when its name contains the tag \<open>@flaky\<close>, or its
  message or its details contain one of the six substrings \<open>not visible\<close>, \<open>timeout\<close>,
  \<open>timed out\<close>, \<open>network\<close>, \<open>navigation\<close>, \<open>to be visible\<close>, all of it
  case-insensitively. In particular a case named \<open>login @flaky should succeed\<close> is
  rule-eligible whatever its message says.
\<close>

theorem rule_eligible_iff:
  "(is_retry_eligible_ui c \<longleftrightarrow>
      contains_ci ''@flaky'' (name c)
      \<or> (\<exists>sig \<in> set [''not visible'', ''timeout'', ''timed out'', ''network'', ''navigation'',
                        ''to be visible''].
            contains_ci sig (message c) \<or> contains_ci sig (details c)))
   \<and> (name c = ''login @flaky should succeed'' \<longrightarrow> is_retry_eligible_ui c)"
proof (rule conjI)
  show "is_retry_eligible_ui c \<longleftrightarrow>
      contains_ci ''@flaky'' (name c)
      \<or> (\<exists>sig \<in> set [''not visible'', ''timeout'', ''timed out'', ''network'', ''navigation'',
                        ''to be visible''].
            contains_ci sig (message c) \<or> contains_ci sig (details c))"
    by (simp only: is_retry_eligible_ui_rule rule_eligible_def)
next
  show "name c = ''login @flaky should succeed'' \<longrightarrow> is_retry_eligible_ui c"
  proof
    assume n: "name c = ''login @flaky should succeed''"
    have "str_in ''@flaky'' (lower ''login @flaky should succeed'')"
      by code_simp
    then show "is_retry_eligible_ui c"
      by (simp add: is_retry_eligible_ui_def Let_def n)
  qed
qed

theorem rule_eligible_iff_witness:
  "name flaky_login_case = ''login @flaky should succeed''
   \<and> is_retry_eligible_ui flaky_login_case
   \<and> contains_ci ''@flaky'' (name capital_tag_case)
   \<and> is_retry_eligible_ui capital_tag_case
   \<and> contains_ci ''navigation'' (message mixed_signal_case)
   \<and> is_retry_eligible_ui mixed_signal_case
   \<and> \<not> is_retry_eligible_ui untagged_case
   \<and> \<not> contains_ci ''@flaky'' (name untagged_case)
   \<and> \<not> contains_ci ''timeout'' (message untagged_case)"
proof -
  have n: "name flaky_login_case = ''login @flaky should succeed''"
    by (simp add: flaky_login_case_def)
  have e: "is_retry_eligible_ui flaky_login_case"
    using conjunct2 [OF rule_eligible_iff [of flaky_login_case]] n by (rule mp)
  have s1: "name capital_tag_case = ''Login '' @ ''@FLAKY'' @ '' Should Succeed''"
    by code_simp
  have t1: "same_ci ''@FLAKY'' ''@flaky''"
    by code_simp
  have c1: "contains_ci ''@flaky'' (name capital_tag_case)"
    unfolding contains_ci_def using s1 t1 by blast
  then have e1: "is_retry_eligible_ui capital_tag_case"
    using conjunct1 [OF rule_eligible_iff [of capital_tag_case]] by blast
  have s2: "message mixed_signal_case = ''Page '' @ ''NaviGation'' @ '' was interrupted''"
    by code_simp
  have t2: "same_ci ''NaviGation'' ''navigation''"
    by code_simp
  have c2: "contains_ci ''navigation'' (message mixed_signal_case)"
    unfolding contains_ci_def using s2 t2 by blast
  have "\<exists>sig \<in> set [''not visible'', ''timeout'', ''timed out'', ''network'', ''navigation'',
                        ''to be visible''].
            contains_ci sig (message mixed_signal_case) \<or> contains_ci sig (details mixed_signal_case)"
    using c2 by simp
  then have e2: "is_retry_eligible_ui mixed_signal_case"
    using conjunct1 [OF rule_eligible_iff [of mixed_signal_case]] by blast
  have e3: "\<not> is_retry_eligible_ui untagged_case"
    by code_simp
  then have n3: "\<not> (contains_ci ''@flaky'' (name untagged_case)
      \<or> (\<exists>sig \<in> set [''not visible'', ''timeout'', ''timed out'', ''network'', ''navigation'',
                        ''to be visible''].
            contains_ci sig (message untagged_case) \<or> contains_ci sig (details untagged_case)))"
    using conjunct1 [OF rule_eligible_iff [of untagged_case]] by blast
  then have c3: "\<not> contains_ci ''@flaky'' (name untagged_case)"
    and c4: "\<not> contains_ci ''timeout'' (message untagged_case)"
    by simp_all
  from n e c1 e1 c2 e2 e3 c3 c4 show ?thesis
    by (intro conjI)
qed

section \<open>The router\<close>

text \<open>Past its four gates the router is left with the policy and the two tiers.\<close>

lemma router_gates:
  assumes "summary st = Some sm" and "failed sm > 0"
    and "policy st \<noteq> Some ''none''"
    and "approved st \<noteq> Some False"
    and "attempt st = Some a" and "max_attempts st = Some m" and "1 \<le> a" and "a < m"
  shows "decide_after_approval st =
     (let failed_cases = failed_cases_of a (get_or (results st) [])
      in if policy st = Some ''always'' then ''retry''
         else if list_ex (\<lambda>c. llm_label c \<noteq> None) failed_cases then
           (if list_ex (\<lambda>c. lower (get_or (llm_label c) []) = ''transient'') failed_cases
            then ''retry'' else ''end'')
         else if list_ex is_retry_eligible_ui failed_cases then ''retry''
         else ''end'')"
  using assms by (simp add: decide_after_approval_def int_or_def Let_def)

lemma lower_transient: "lower ''transient'' = ''transient''"
  by code_simp

lemma label_transient_iff:
  "(lower (get_or (llm_label c) []) = ''transient'')
     = (case llm_label c of None \<Rightarrow> False | Some l \<Rightarrow> same_ci l ''transient'')"
proof (cases "llm_label c")
  case None
  have "lower [] \<noteq> ''transient''"
    by (simp add: lower_def)
  with None show ?thesis
    by (simp add: get_or_def)
next
  case (Some l)
  then show ?thesis
    by (simp add: get_or_def lower_eq_same_ci [OF plain_patterns(8)])
qed


text \<open>
  C1 (as amended). With failures, policy \<open>flaky_only\<close>, no denial and attempts left
  (attempt numbers start at 1): when no failed case of the current attempt carries any
  external label, and one of them is rule-eligible, the router returns \<open>retry\<close>; when
  some failed case of the current attempt carries a label and none of these labels is
  \<open>transient\<close> in any letter case, it returns \<open>end\<close>, whatever the rules say. Cases of
  earlier attempts count for neither.
\<close>

theorem unlabelled_falls_to_rules:
  assumes "summary st = Some sm" and "failed sm > 0"
    and "policy st = Some ''flaky_only''"
    and "approved st \<noteq> Some False"
    and "attempt st = Some a" and "max_attempts st = Some m" and "1 \<le> a" and "a < m"
  shows "((\<forall>c \<in> set (get_or (results st) []).
             case_attempt c = a \<and> status c = ''failed'' \<longrightarrow> llm_label c = None)
          \<and> (\<exists>c \<in> set (get_or (results st) []).
               case_attempt c = a \<and> status c = ''failed'' \<and> rule_eligible c)
          \<longrightarrow> decide_after_approval st = ''retry'')
       \<and> ((\<exists>c \<in> set (get_or (results st) []).
              case_attempt c = a \<and> status c = ''failed'' \<and> llm_label c \<noteq> None)
          \<and> (\<forall>c \<in> set (get_or (results st) []).
               case_attempt c = a \<and> status c = ''failed'' \<longrightarrow>
                 (case llm_label c of None \<Rightarrow> True | Some l \<Rightarrow> \<not> same_ci l ''transient''))
          \<longrightarrow> decide_after_approval st = ''end'')"
proof -
  have p: "policy st \<noteq> Some ''none''" "policy st \<noteq> Some ''always''"
    using assms(3) by simp_all
  note r = router_gates [OF assms(1,2) p(1) assms(4-8)]
  have sel: "set (failed_cases_of a (get_or (results st) []))
               = {c \<in> set (get_or (results st) []). case_attempt c = a \<and> status c = ''failed''}"
    by (simp add: failed_cases_of_def)
  show ?thesis
    unfolding r Let_def list_ex_iff sel label_transient_iff is_retry_eligible_ui_rule
    using p(2) by (auto split: option.splits)
qed


text \<open>
  The claim as first stated fails: one failed case labelled \<open>real\<close>, the other one
  unlabelled and rule-eligible, and the router ends the run.
\<close>

theorem unlabelled_falls_to_rules_counterexample:
  "map_option failed (summary real_label_state) = Some 2
   \<and> policy real_label_state = Some ''flaky_only''
   \<and> approved real_label_state = Some True
   \<and> attempt real_label_state = Some 1
   \<and> max_attempts real_label_state = Some 2
   \<and> map case_attempt (get_or (results real_label_state) []) = [1, 1]
   \<and> map status (get_or (results real_label_state) []) = [''failed'', ''failed'']
   \<and> map llm_label (get_or (results real_label_state) []) = [Some ''real'', None]
   \<and> map is_retry_eligible_ui (get_or (results real_label_state) []) = [False, True]
   \<and> decide_after_approval real_label_state = ''end''"
  by code_simp

theorem unlabelled_falls_to_rules_witness:
  "decide_after_approval unlabelled_state = ''retry''
   \<and> decide_after_approval real_only_state = ''end''
   \<and> decide_after_approval earlier_real_state = ''retry''
   \<and> decide_after_approval earlier_transient_state = ''end''"
proof -
  have g: "failed two_failures_summary > 0" "(1::int) \<le> 1" "(1::int) < 2" "(1::int) \<le> 2" "(2::int) < 3"
      "failed \<lparr>total_n = 1, passed = 0, failed = 1, skipped = 0\<rparr> > 0"
    by code_simp+
  have u: "summary unlabelled_state = Some two_failures_summary"
      "policy unlabelled_state = Some ''flaky_only''"
      "approved unlabelled_state \<noteq> Some False"
      "attempt unlabelled_state = Some 1" "max_attempts unlabelled_state = Some 2"
    by code_simp+
  have "(\<forall>c \<in> set (get_or (results unlabelled_state) []).
             case_attempt c = 1 \<and> status c = ''failed'' \<longrightarrow> llm_label c = None)
          \<and> (\<exists>c \<in> set (get_or (results unlabelled_state) []).
               case_attempt c = 1 \<and> status c = ''failed'' \<and> is_retry_eligible_ui c)"
    by code_simp
  then have u1: "(\<forall>c \<in> set (get_or (results unlabelled_state) []).
             case_attempt c = 1 \<and> status c = ''failed'' \<longrightarrow> llm_label c = None)
          \<and> (\<exists>c \<in> set (get_or (results unlabelled_state) []).
               case_attempt c = 1 \<and> status c = ''failed'' \<and> rule_eligible c)"
    unfolding is_retry_eligible_ui_rule .
  have r: "summary real_only_state = Some two_failures_summary"
      "policy real_only_state = Some ''flaky_only''"
      "approved real_only_state \<noteq> Some False"
      "attempt real_only_state = Some 1" "max_attempts real_only_state = Some 2"
    by code_simp+
  have r1: "(\<exists>c \<in> set (get_or (results real_only_state) []).
              case_attempt c = 1 \<and> status c = ''failed'' \<and> llm_label c \<noteq> None)
          \<and> (\<forall>c \<in> set (get_or (results real_only_state) []).
               case_attempt c = 1 \<and> status c = ''failed'' \<longrightarrow>
                 (case llm_label c of None \<Rightarrow> True | Some l \<Rightarrow> \<not> same_ci l ''transient''))"
    by code_simp
  have v: "summary earlier_real_state = Some \<lparr>total_n = 1, passed = 0, failed = 1, skipped = 0\<rparr>"
      "policy earlier_real_state = Some ''flaky_only''"
      "approved earlier_real_state \<noteq> Some False"
      "attempt earlier_real_state = Some 2" "max_attempts earlier_real_state = Some 3"
    by code_simp+
  have "(\<forall>c \<in> set (get_or (results earlier_real_state) []).
             case_attempt c = 2 \<and> status c = ''failed'' \<longrightarrow> llm_label c = None)
          \<and> (\<exists>c \<in> set (get_or (results earlier_real_state) []).
               case_attempt c = 2 \<and> status c = ''failed'' \<and> is_retry_eligible_ui c)"
    by code_simp
  then have v1: "(\<forall>c \<in> set (get_or (results earlier_real_state) []).
             case_attempt c = 2 \<and> status c = ''failed'' \<longrightarrow> llm_label c = None)
          \<and> (\<exists>c \<in> set (get_or (results earlier_real_state) []).
               case_attempt c = 2 \<and> status c = ''failed'' \<and> rule_eligible c)"
    unfolding is_retry_eligible_ui_rule .
  have w: "summary earlier_transient_state = Some \<lparr>total_n = 1, passed = 0, failed = 1, skipped = 0\<rparr>"
      "policy earlier_transient_state = Some ''flaky_only''"
      "approved earlier_transient_state \<noteq> Some False"
      "attempt earlier_transient_state = Some 2" "max_attempts earlier_transient_state = Some 3"
    by code_simp+
  have w1: "(\<exists>c \<in> set (get_or (results earlier_transient_state) []).
              case_attempt c = 2 \<and> status c = ''failed'' \<and> llm_label c \<noteq> None)
          \<and> (\<forall>c \<in> set (get_or (results earlier_transient_state) []).
               case_attempt c = 2 \<and> status c = ''failed'' \<longrightarrow>
                 (case llm_label c of None \<Rightarrow> True | Some l \<Rightarrow> \<not> same_ci l ''transient''))"
    by code_simp
  have a: "decide_after_approval unlabelled_state = ''retry''"
    using conjunct1 [OF unlabelled_falls_to_rules [OF u(1) g(1) u(2-5) g(2,3)]] u1 by (rule mp)
  have b: "decide_after_approval real_only_state = ''end''"
    using conjunct2 [OF unlabelled_falls_to_rules [OF r(1) g(1) r(2-5) g(2,3)]] r1 by (rule mp)
  have c: "decide_after_approval earlier_real_state = ''retry''"
    using conjunct1 [OF unlabelled_falls_to_rules [OF v(1) g(6) v(2-5) g(4,5)]] v1 by (rule mp)
  have d: "decide_after_approval earlier_transient_state = ''end''"
    using conjunct2 [OF unlabelled_falls_to_rules [OF w(1) g(6) w(2-5) g(4,5)]] w1 by (rule mp)
  from a b c d show ?thesis by (intro conjI)
qed

text \<open>
  C5. With failures, policy \<open>flaky_only\<close>, no denial and attempts left (attempt numbers
  start at 1): when a failed case of the current attempt carries the external label
  \<open>transient\<close>, the router returns \<open>retry\<close>, whatever the other cases carry.
\<close>

theorem transient_label_retries:
  assumes "summary st = Some sm" and "failed sm > 0"
    and "policy st = Some ''flaky_only''"
    and "approved st \<noteq> Some False"
    and "attempt st = Some a" and "max_attempts st = Some m" and "1 \<le> a" and "a < m"
    and "\<exists>c \<in> set (failed_cases_of a (get_or (results st) [])). llm_label c = Some ''transient''"
  shows "decide_after_approval st = ''retry''"
proof -
  have p: "policy st \<noteq> Some ''none''" "policy st \<noteq> Some ''always''"
    using assms(3) by simp_all
  from assms(9) obtain c where c: "c \<in> set (failed_cases_of a (get_or (results st) []))"
      and l: "llm_label c = Some ''transient''"
    by blast
  from l have "llm_label c \<noteq> None" and "lower (get_or (llm_label c) []) = ''transient''"
    by (simp_all add: get_or_def lower_transient)
  with c have "list_ex (\<lambda>c. llm_label c \<noteq> None) (failed_cases_of a (get_or (results st) []))"
    and "list_ex (\<lambda>c. lower (get_or (llm_label c) []) = ''transient'')
           (failed_cases_of a (get_or (results st) []))"
    unfolding list_ex_iff by blast+
  then show ?thesis
    unfolding router_gates [OF assms(1,2) p(1) assms(4-8)] Let_def by simp
qed

theorem transient_label_retries_witness:
  "map llm_label (failed_cases_of 1 (get_or (results one_transient_state) [])) = [Some ''transient'', None]
   \<and> decide_after_approval one_transient_state = ''retry''"
proof -
  have u: "summary one_transient_state = Some two_failures_summary"
      "failed two_failures_summary > 0"
      "policy one_transient_state = Some ''flaky_only''"
      "approved one_transient_state \<noteq> Some False"
      "attempt one_transient_state = Some 1" "max_attempts one_transient_state = Some 2"
      "(1::int) \<le> 1" "(1::int) < 2"
      "\<exists>c \<in> set (failed_cases_of 1 (get_or (results one_transient_state) [])).
          llm_label c = Some ''transient''"
    by code_simp+
  have l: "map llm_label (failed_cases_of 1 (get_or (results one_transient_state) [])) = [Some ''transient'', None]"
    by code_simp
  from transient_label_retries [OF u] l show ?thesis by (rule conjI [rotated])
qed

text \<open>
  C2 (as amended). With policy \<open>always\<close>, failures and attempts left (attempt numbers
  start at 1), the router returns \<open>retry\<close> unless the approval was denied; after a
  denial it returns \<open>end\<close>.
\<close>

theorem always_policy_retries:
  assumes "summary st = Some sm" and "failed sm > 0"
    and "policy st = Some ''always''"
    and "attempt st = Some a" and "max_attempts st = Some m" and "1 \<le> a" and "a < m"
  shows "decide_after_approval st = (if approved st = Some False then ''end'' else ''retry'')"
  using assms by (simp add: decide_after_approval_def int_or_def Let_def)


text \<open>The claim as first stated fails on a denied approval.\<close>

theorem always_policy_retries_counterexample:
  "policy denied_always_state = Some ''always''
   \<and> map_option failed (summary denied_always_state) = Some 2
   \<and> attempt denied_always_state = Some 1
   \<and> max_attempts denied_always_state = Some 2
   \<and> approved denied_always_state = Some False
   \<and> decide_after_approval denied_always_state = ''end''"
  by code_simp

theorem always_policy_retries_witness:
  "decide_after_approval (denied_always_state\<lparr>approved := Some True\<rparr>) = ''retry''
   \<and> decide_after_approval (denied_always_state\<lparr>approved := None\<rparr>) = ''retry''"
proof -
  have u: "summary (denied_always_state\<lparr>approved := Some True\<rparr>) = Some two_failures_summary"
      "failed two_failures_summary > 0"
      "policy (denied_always_state\<lparr>approved := Some True\<rparr>) = Some ''always''"
      "attempt (denied_always_state\<lparr>approved := Some True\<rparr>) = Some 1"
      "max_attempts (denied_always_state\<lparr>approved := Some True\<rparr>) = Some 2"
      "(1::int) \<le> 1" "(1::int) < 2"
    by code_simp+
  have v: "summary (denied_always_state\<lparr>approved := None\<rparr>) = Some two_failures_summary"
      "failed two_failures_summary > 0"
      "policy (denied_always_state\<lparr>approved := None\<rparr>) = Some ''always''"
      "attempt (denied_always_state\<lparr>approved := None\<rparr>) = Some 1"
      "max_attempts (denied_always_state\<lparr>approved := None\<rparr>) = Some 2"
      "(1::int) \<le> 1" "(1::int) < 2"
    by code_simp+
  have a: "approved (denied_always_state\<lparr>approved := Some True\<rparr>) \<noteq> Some False"
    by simp
  have b: "approved (denied_always_state\<lparr>approved := None\<rparr>) \<noteq> Some False"
    by simp
  from always_policy_retries [OF u] a always_policy_retries [OF v] b
  show ?thesis by simp
qed

section \<open>Config resolution\<close>

lemma merged_default_setdefault: "merged_default v d (setdefault v d)"
  by (simp add: merged_default_def setdefault_def split: option.split)

lemma merged_default_case: "merged_default v d (case v of None \<Rightarrow> Some d | Some c \<Rightarrow> Some c)"
  by (simp add: merged_default_def split: option.split)

text \<open>
  C8. \<open>prepare_config\<close> gives every unset field its default (project \<open>ui\<close>, working
  directory \<open>.\<close>, report path \<open>results/junit-ui.xml\<close>, max attempts 2, policy
  \<open>flaky_only\<close>, retry scope \<open>full\<close>, approved true, and the defaults of the remaining
  keys), overwrites no field that is set, and leaves the keys without a default as they
  are. It is a total function: there is no failure to return.
\<close>

theorem prepare_config_merges_defaults:
  "merged_default (project s) ''ui'' (project (prepare_config s))
   \<and> merged_default (cwd s) ''.'' (cwd (prepare_config s))
   \<and> merged_default (junit_path s) ''results/junit-ui.xml'' (junit_path (prepare_config s))
   \<and> merged_default (max_attempts s) 2 (max_attempts (prepare_config s))
   \<and> merged_default (policy s) ''flaky_only'' (policy (prepare_config s))
   \<and> merged_default (retry_scope s) ''full'' (retry_scope (prepare_config s))
   \<and> merged_default (approved s) True (approved (prepare_config s))
   \<and> merged_default (cmd s) [''npm'', ''run'', ''test:ui''] (cmd (prepare_config s))
   \<and> merged_default (env s) [] (env (prepare_config s))
   \<and> merged_default (attempt s) 1 (attempt (prepare_config s))
   \<and> merged_default (results s) [] (results (prepare_config s))
   \<and> merged_default (summary s) empty_summary (summary (prepare_config s))
   \<and> merged_default (errors s) [] (errors (prepare_config s))
   \<and> merged_default (llm_summary s) [] (llm_summary (prepare_config s))
   \<and> run_rc (prepare_config s) = run_rc s
   \<and> stdout (prepare_config s) = stdout s
   \<and> stderr (prepare_config s) = stderr s
   \<and> memory_notes (prepare_config s) = memory_notes s"
  by (simp add: prepare_config_def merged_default_setdefault merged_default_case)

theorem prepare_config_merges_defaults_witness:
  "prepare_config (initial_state ''./playwright-demo'' ''out/junit.xml'' 3 ''always'' ''failed_only'' [] :: string state)
     = \<lparr>project = Some ''ui'', cwd = Some ''./playwright-demo'',
        cmd = Some [''npm'', ''run'', ''test:ui''], junit_path = Some ''out/junit.xml'',
        env = Some [], attempt = Some 1, max_attempts = Some 3, approved = Some True,
        run_rc = None, stdout = None, stderr = None, results = Some [],
        summary = Some empty_summary, errors = Some [], policy = Some ''always'',
        retry_scope = Some ''failed_only'', llm_summary = Some [], memory_notes = None\<rparr>"
  using prepare_config_merges_defaults
    [of "initial_state ''./playwright-demo'' ''out/junit.xml'' 3 ''always'' ''failed_only'' [] :: string state"]
  by (simp add: prepare_config_def initial_state_def setdefault_def)

section \<open>Parsing a report\<close>

lemma find_child_iff: "(find_child t e \<noteq> None) = has_child t e"
  by (auto simp: find_child_def has_child_def find_None_iff)

lemma isl_parse_testcase: "isl (parse_testcase w a tc) = isl (case_time w tc)"
  by (simp add: parse_testcase_def Let_def split: sum.split option.split)

lemma parse_testcase_Inr:
  assumes "parse_testcase w a tc = Inr c"
  shows "status c = expected_status tc" and "case_attempt c = a"
    and "llm_label c = None"
proof -
  from assms obtain tm where tm: "case_time w tc = Inr tm"
    by (cases "case_time w tc") (simp_all add: parse_testcase_def)
  have f: "has_child ''failure'' tc = (find_child ''failure'' tc \<noteq> None)"
    and k: "has_child ''skipped'' tc = (find_child ''skipped'' tc \<noteq> None)"
    by (simp_all only: find_child_iff)
  from assms show "status c = expected_status tc"
    unfolding expected_status_def f k
    by (auto simp: parse_testcase_def tm Let_def split: option.splits)
  from assms show "case_attempt c = a"
    by (auto simp: parse_testcase_def tm Let_def split: option.splits)
  from assms show "llm_label c = None"
    by (auto simp: parse_testcase_def tm Let_def split: option.splits)
qed

lemma expected_status_cases:
  "expected_status tc = ''passed'' \<or> expected_status tc = ''failed'' \<or> expected_status tc = ''skipped''"
  by (simp add: expected_status_def)

lemma parse_loop_Inl:
  "\<not> list_all (\<lambda>tc. \<not> isl (case_time w tc)) tcs \<Longrightarrow> isl (parse_loop w a tcs acc)"
proof (induction tcs arbitrary: acc)
  case Nil
  then show ?case by simp
next
  case (Cons tc tcs)
  obtain p f k cs where acc: "acc = (p, f, k, cs)"
    by (cases acc) auto
  show ?case
  proof (cases "parse_testcase w a tc")
    case (Inl e)
    then show ?thesis by (simp add: acc)
  next
    case (Inr c)
    then have "\<not> isl (case_time w tc)"
      using isl_parse_testcase [of w a tc] by simp
    with Cons.prems have "\<not> list_all (\<lambda>tc. \<not> isl (case_time w tc)) tcs"
      by simp
    then show ?thesis
      using Cons.IH by (simp add: acc Inr)
  qed
qed

lemma parse_loop_Inr:
  assumes "list_all (\<lambda>tc. \<not> isl (case_time w tc)) tcs"
  shows "\<exists>new. parse_loop w a tcs (p, f, k, cs)
            = Inr (p + count_status ''passed'' new, f + count_status ''failed'' new,
                   k + count_status ''skipped'' new, cs @ new)
          \<and> map status new = map expected_status tcs
          \<and> list_all (\<lambda>c. case_attempt c = a \<and> llm_label c = None) new"
  using assms
proof (induction tcs arbitrary: p f k cs)
  case Nil
  show ?case
    by (rule exI [of _ "[]"]) (simp add: count_status_def)
next
  case (Cons tc tcs)
  from Cons.prems have ok: "\<not> isl (case_time w tc)"
    and rest: "list_all (\<lambda>tc. \<not> isl (case_time w tc)) tcs"
    by simp_all
  from ok obtain c where c: "parse_testcase w a tc = Inr c"
    using isl_parse_testcase [of w a tc] by (cases "parse_testcase w a tc") simp_all
  note st = parse_testcase_Inr [OF c]
  let ?p = "if status c = ''passed'' then p + 1 else p"
  let ?f = "if status c = ''passed'' then f else if status c = ''failed'' then f + 1 else f"
  let ?k = "if status c = ''passed'' then k else if status c = ''failed'' then k else k + 1"
  from Cons.IH [OF rest, of ?p ?f ?k "cs @ [c]"]
  obtain new where n: "parse_loop w a tcs (?p, ?f, ?k, cs @ [c])
            = Inr (?p + count_status ''passed'' new, ?f + count_status ''failed'' new,
                   ?k + count_status ''skipped'' new, (cs @ [c]) @ new)"
      and m: "map status new = map expected_status tcs"
      and l: "list_all (\<lambda>c. case_attempt c = a \<and> llm_label c = None) new"
    by blast
  have step: "parse_loop w a (tc # tcs) (p, f, k, cs) = parse_loop w a tcs (?p, ?f, ?k, cs @ [c])"
    by (simp add: c)
  have cnt: "?p + count_status ''passed'' new = p + count_status ''passed'' (c # new)"
      "?f + count_status ''failed'' new = f + count_status ''failed'' (c # new)"
      "?k + count_status ''skipped'' new = k + count_status ''skipped'' (c # new)"
    using expected_status_cases [of tc] by (auto simp: count_status_def st(1))
  show ?case
    apply (rule exI [of _ "c # new"])
    apply (simp only: step n cnt)
    apply (simp add: m l st)
    done
qed


lemma parse_results_missing:
  assumes "\<not> path_exists w (junit_file w s)"
  shows "parse_results w s
           = append_error (''[parse_results] JUnit not found at: '' @ junit_file w s) s"
  using assms by (simp add: parse_results_def)

lemma parse_results_success:
  assumes "report_parses w s root"
  shows "\<exists>cases. parse_results w s
           = s\<lparr>results := Some (get_or (results s) [] @ cases),
                summary := Some \<lparr>total_n = int (length cases),
                                 passed = count_status ''passed'' cases,
                                 failed = count_status ''failed'' cases,
                                 skipped = count_status ''skipped'' cases\<rparr>\<rparr>
          \<and> map status cases = map expected_status (iter ''testcase'' root)
          \<and> list_all (\<lambda>c. case_attempt c = int_or (attempt s) 1 \<and> llm_label c = None) cases"
proof -
  from assms have ex: "path_exists w (junit_file w s)"
    and doc: "et_parse w (junit_file w s) = Inr root"
    and tm: "list_all (\<lambda>tc. \<not> isl (case_time w tc)) (iter ''testcase'' root)"
    by (simp_all add: report_parses_def)
  from parse_loop_Inr [OF tm, of "int_or (attempt s) 1" 0 0 0 "[]"]
  obtain new where n: "parse_loop w (int_or (attempt s) 1) (iter ''testcase'' root) (0, 0, 0, [])
            = Inr (count_status ''passed'' new, count_status ''failed'' new,
                   count_status ''skipped'' new, new)"
      and m: "map status new = map expected_status (iter ''testcase'' root)"
      and l: "list_all (\<lambda>c. case_attempt c = int_or (attempt s) 1 \<and> llm_label c = None) new"
    by auto
  from m have len: "length new = length (iter ''testcase'' root)"
    by (rule map_eq_imp_length_eq)
  have "parse_results w s
           = s\<lparr>results := Some (get_or (results s) [] @ new),
                summary := Some \<lparr>total_n = int (length new),
                                 passed = count_status ''passed'' new,
                                 failed = count_status ''failed'' new,
                                 skipped = count_status ''skipped'' new\<rparr>\<rparr>"
    by (simp add: parse_results_def ex doc n len Let_def)
  with m l show ?thesis by blast
qed

lemma parse_results_cases:
  obtains (unchanged) msg where "parse_results w s = append_error msg s"
  | (parsed) root where "report_parses w s root"
proof (cases "path_exists w (junit_file w s)")
  case False
  then show ?thesis
    using unchanged parse_results_missing by blast
next
  case True
  show ?thesis
  proof (cases "et_parse w (junit_file w s)")
    case (Inl e)
    with True have "parse_results w s = append_error (''[parse_results] Exception: '' @ e) s"
      by (simp add: parse_results_def)
    then show ?thesis by (rule unchanged)
  next
    case (Inr root)
    show ?thesis
    proof (cases "list_all (\<lambda>tc. \<not> isl (case_time w tc)) (iter ''testcase'' root)")
      case True
      with \<open>path_exists w (junit_file w s)\<close> Inr have "report_parses w s root"
        by (simp add: report_parses_def)
      then show ?thesis by (rule parsed)
    next
      case False
      from parse_loop_Inl [OF False, of "int_or (attempt s) 1" "(0, 0, 0, [])"]
      obtain e where "parse_loop w (int_or (attempt s) 1) (iter ''testcase'' root) (0, 0, 0, []) = Inl e"
        by (cases "parse_loop w (int_or (attempt s) 1) (iter ''testcase'' root) (0, 0, 0, [])") simp_all
      with \<open>path_exists w (junit_file w s)\<close> Inr
      have "parse_results w s = append_error (''[parse_results] Exception: '' @ e) s"
        by (simp add: parse_results_def Let_def)
      then show ?thesis by (rule unchanged)
    qed
  qed
qed

text \<open>
  C3 (as amended). When the report file does not exist, \<open>parse_results\<close> appends one
  error entry that names the path, returns the state (the accumulated results and the
  attempt number as they were), and the summary is empty whenever it was empty before
  the call, as it is on a first attempt after config resolution.
\<close>

theorem missing_report_is_recorded:
  assumes "\<not> path_exists w (junit_file w s)"
  shows "errors (parse_results w s)
           = Some (get_or (errors s) [] @ [''[parse_results] JUnit not found at: '' @ junit_file w s])
       \<and> results (parse_results w s) = results s
       \<and> attempt (parse_results w s) = attempt s
       \<and> (summary s = Some empty_summary \<longrightarrow> summary (parse_results w s) = Some empty_summary)"
  by (simp add: parse_results_missing [OF assms] append_error_def)


theorem missing_report_is_recorded_witness:
  "errors (parse_results missing_report_world first_attempt_state)
     = Some [''[parse_results] JUnit not found at: ./results/junit-ui.xml'']
   \<and> results (parse_results missing_report_world first_attempt_state) = Some []
   \<and> summary (parse_results missing_report_world first_attempt_state)
     = Some \<lparr>total_n = 0, passed = 0, failed = 0, skipped = 0\<rparr>"
proof -
  have h: "\<not> path_exists missing_report_world (junit_file missing_report_world first_attempt_state)"
    by code_simp
  have e: "get_or (errors first_attempt_state) []
             @ [''[parse_results] JUnit not found at: ''
                  @ junit_file missing_report_world first_attempt_state]
           = [''[parse_results] JUnit not found at: ./results/junit-ui.xml'']"
    by code_simp
  have r: "results first_attempt_state = Some []"
    by code_simp
  have s: "summary first_attempt_state = Some empty_summary"
    by code_simp
  have z: "empty_summary = \<lparr>total_n = 0, passed = 0, failed = 0, skipped = 0\<rparr>"
    by (simp add: empty_summary_def)
  from missing_report_is_recorded [OF h] show ?thesis
    unfolding e r z [symmetric] using s by simp
qed


text \<open>
  The claim as first stated fails on a retry attempt: the summary still shows the counts
  of the attempt before.
\<close>

theorem missing_report_is_recorded_counterexample:
  "\<not> path_exists missing_report_world (junit_file missing_report_world second_attempt_state)
   \<and> attempt second_attempt_state = Some 2
   \<and> summary (parse_results missing_report_world second_attempt_state)
     = Some \<lparr>total_n = 3, passed = 1, failed = 2, skipped = 0\<rparr>"
  by code_simp

section \<open>What the nodes leave alone\<close>

lemma append_error_frame:
  "attempt (append_error m s) = attempt s" "max_attempts (append_error m s) = max_attempts s"
  "results (append_error m s) = results s" "summary (append_error m s) = summary s"
  "cwd (append_error m s) = cwd s" "junit_path (append_error m s) = junit_path s"
  by (simp_all add: append_error_def)

lemma execute_tests_frame:
  "attempt (execute_tests w s) = attempt s" "max_attempts (execute_tests w s) = max_attempts s"
  "results (execute_tests w s) = results s" "summary (execute_tests w s) = summary s"
  "cwd (execute_tests w s) = cwd s" "junit_path (execute_tests w s) = junit_path s"
  by (simp_all add: execute_tests_def Let_def append_error_def split: sum.split prod.split)

lemma parse_results_frame:
  "attempt (parse_results w s) = attempt s" "max_attempts (parse_results w s) = max_attempts s"
  "cwd (parse_results w s) = cwd s" "junit_path (parse_results w s) = junit_path s"
  by (simp_all add: parse_results_def Let_def append_error_def split: sum.split prod.split)

lemma apply_label_frame:
  "case_attempt (apply_label ls c) = case_attempt c" "status (apply_label ls c) = status c"
  by (simp_all add: apply_label_def split: option.split)

lemma llm_triage_frame:
  "attempt (llm_triage w s) = attempt s" "max_attempts (llm_triage w s) = max_attempts s"
  "summary (llm_triage w s) = summary s"
  "cwd (llm_triage w s) = cwd s" "junit_path (llm_triage w s) = junit_path s"
  by (simp_all add: llm_triage_def Let_def append_error_def split: sum.split prod.split)

lemma llm_triage_results:
  "\<exists>g. (\<forall>c. case_attempt (g c) = case_attempt c \<and> status (g c) = status c)
       \<and> get_or (results (llm_triage w s)) [] = map g (get_or (results s) [])"
proof (cases "failed_cases_of (int_or (attempt s) 1) (get_or (results s) []) = []")
  case True
  then have "llm_triage w s = s"
    by (simp add: llm_triage_def Let_def)
  then show ?thesis
    by (intro exI [of _ "\<lambda>c. c"]) simp
next
  case False
  show ?thesis
  proof (cases "llm_reply w (int_or (attempt s) 1) (policy s)
                  (failed_cases_of (int_or (attempt s) 1) (get_or (results s) []))")
    case (Inl e)
    with False have "results (llm_triage w s) = results s"
      by (simp add: llm_triage_def Let_def append_error_def)
    then show ?thesis
      by (intro exI [of _ "\<lambda>c. c"]) simp
  next
    case (Inr r)
    obtain reply labels where r: "r = (reply, labels)"
      by (cases r) auto
    let ?g = "\<lambda>c. if case_attempt c = int_or (attempt s) 1 \<and> status c = ''failed''
                   then apply_label labels c else c"
    from False Inr r have "results (llm_triage w s) = Some (map ?g (get_or (results s) []))"
      by (simp add: llm_triage_def Let_def)
    then have a: "get_or (results (llm_triage w s)) [] = map ?g (get_or (results s) [])"
      by (simp add: get_or_def)
    have b: "\<forall>c. case_attempt (?g c) = case_attempt c \<and> status (?g c) = status c"
      by (simp add: apply_label_frame)
    show ?thesis
      by (rule exI [of _ ?g]) (rule conjI [OF b a])
  qed
qed

lemma approval_checkpoint_frame:
  "attempt (approval_checkpoint w s) = attempt s"
  "max_attempts (approval_checkpoint w s) = max_attempts s"
  "results (approval_checkpoint w s) = results s" "summary (approval_checkpoint w s) = summary s"
  "cwd (approval_checkpoint w s) = cwd s" "junit_path (approval_checkpoint w s) = junit_path s"
  by (simp_all add: approval_checkpoint_def Let_def split: option.split)

lemma retry_once_frame:
  "max_attempts (retry_once s) = max_attempts s"
  "results (retry_once s) = results s" "summary (retry_once s) = summary s"
  "cwd (retry_once s) = cwd s" "junit_path (retry_once s) = junit_path s"
  by (simp_all add: retry_once_def)

lemma attempt_nodes_frame:
  "attempt (attempt_nodes w s) = attempt s"
  "cwd (attempt_nodes w s) = cwd s" "junit_path (attempt_nodes w s) = junit_path s"
  by (simp_all add: attempt_nodes_def approval_checkpoint_frame llm_triage_frame
      parse_results_frame execute_tests_frame)

lemma report_parses_cong:
  "cwd s' = cwd s \<Longrightarrow> junit_path s' = junit_path s \<Longrightarrow> report_parses w s' root = report_parses w s root"
  by (simp add: report_parses_def junit_file_def)

text \<open>What one attempt does to the accumulated results and to the summary.\<close>


lemma attempt_nodes_parsed:
  assumes "report_parses w s root"
  shows "\<exists>g cases. (\<forall>c. case_attempt (g c) = case_attempt c \<and> status (g c) = status c)
     \<and> get_or (results (attempt_nodes w s)) [] = map g (get_or (results s) [] @ cases)
     \<and> summary (attempt_nodes w s)
         = Some \<lparr>total_n = int (length cases), passed = count_status ''passed'' cases,
                 failed = count_status ''failed'' cases, skipped = count_status ''skipped'' cases\<rparr>
     \<and> map status cases = map expected_status (iter ''testcase'' root)
     \<and> list_all (\<lambda>c. case_attempt c = int_or (attempt s) 1) cases"
proof -
  define e where "e = execute_tests w s"
  have fr: "attempt e = attempt s" "results e = results s" "cwd e = cwd s" "junit_path e = junit_path s"
    by (simp_all add: e_def execute_tests_frame)
  have "report_parses w e root"
    using assms report_parses_cong [OF fr(3,4)] by simp
  from parse_results_success [OF this]
  obtain cases where p: "parse_results w e
           = e\<lparr>results := Some (get_or (results e) [] @ cases),
                 summary := Some \<lparr>total_n = int (length cases),
                                 passed = count_status ''passed'' cases,
                                 failed = count_status ''failed'' cases,
                                 skipped = count_status ''skipped'' cases\<rparr>\<rparr>"
      and m: "map status cases = map expected_status (iter ''testcase'' root)"
      and l: "list_all (\<lambda>c. case_attempt c = int_or (attempt e) 1 \<and> llm_label c = None) cases"
    by (elim exE conjE)
  define q where "q = parse_results w e"
  have "results q = Some (get_or (results e) [] @ cases)"
    unfolding q_def p by simp
  then have pr: "get_or (results q) [] = get_or (results s) [] @ cases"
    by (simp add: get_or_def fr)
  have ps: "summary q = Some \<lparr>total_n = int (length cases),
                                 passed = count_status ''passed'' cases,
                                 failed = count_status ''failed'' cases,
                                 skipped = count_status ''skipped'' cases\<rparr>"
    unfolding q_def p by simp
  from llm_triage_results [of w q]
  obtain g where g: "\<forall>c. case_attempt (g c) = case_attempt c \<and> status (g c) = status c"
      and r: "get_or (results (llm_triage w q)) [] = map g (get_or (results q) [])"
    by (elim exE conjE)
  have an: "attempt_nodes w s = approval_checkpoint w (llm_triage w q)"
    by (simp only: attempt_nodes_def q_def e_def)
  have a1: "get_or (results (attempt_nodes w s)) [] = map g (get_or (results s) [] @ cases)"
    by (simp only: an approval_checkpoint_frame r pr)
  have a2: "summary (attempt_nodes w s) = Some \<lparr>total_n = int (length cases),
                                 passed = count_status ''passed'' cases,
                                 failed = count_status ''failed'' cases,
                                 skipped = count_status ''skipped'' cases\<rparr>"
    by (simp only: an approval_checkpoint_frame llm_triage_frame ps)
  from l have a3: "list_all (\<lambda>c. case_attempt c = int_or (attempt s) 1) cases"
    by (simp add: list_all_iff fr)
  show ?thesis
    apply (rule exI [of _ g])
    apply (rule exI [of _ cases])
    apply (intro conjI)
        apply (rule g)
       apply (rule a1)
      apply (rule a2)
     apply (rule m)
    apply (rule a3)
    done
qed

lemma attempt_nodes_results:
  "\<exists>g cases. (\<forall>c. case_attempt (g c) = case_attempt c)
     \<and> get_or (results (attempt_nodes w s)) [] = map g (get_or (results s) [] @ cases)
     \<and> list_all (\<lambda>c. case_attempt c = int_or (attempt s) 1) cases"
proof -
  define e where "e = execute_tests w s"
  have fr: "attempt e = attempt s" "results e = results s" "cwd e = cwd s" "junit_path e = junit_path s"
    by (simp_all add: e_def execute_tests_frame)
  show ?thesis
  proof (cases rule: parse_results_cases [of w e])
    case (unchanged msg)
    define q where "q = parse_results w e"
    from unchanged have pr: "get_or (results q) [] = get_or (results s) []"
      by (simp add: q_def append_error_frame fr)
    from llm_triage_results [of w q]
    obtain g where g: "\<forall>c. case_attempt (g c) = case_attempt c \<and> status (g c) = status c"
        and r: "get_or (results (llm_triage w q)) [] = map g (get_or (results q) [])"
      by (elim exE conjE)
    have an: "attempt_nodes w s = approval_checkpoint w (llm_triage w q)"
      by (simp only: attempt_nodes_def q_def e_def)
    have a1: "get_or (results (attempt_nodes w s)) [] = map g (get_or (results s) [] @ [])"
      by (simp only: an approval_checkpoint_frame r pr append_Nil2)
    from g have g': "\<forall>c. case_attempt (g c) = case_attempt c"
      by simp
    show ?thesis
      apply (rule exI [of _ g])
      apply (rule exI [of _ "[]"])
      apply (intro conjI)
        apply (rule g')
       apply (rule a1)
      apply simp
      done
  next
    case (parsed root)
    then have "report_parses w s root"
      using report_parses_cong [OF fr(3,4)] by simp
    from attempt_nodes_parsed [OF this]
    obtain g cases where g: "\<forall>c. case_attempt (g c) = case_attempt c \<and> status (g c) = status c"
      and a1: "get_or (results (attempt_nodes w s)) [] = map g (get_or (results s) [] @ cases)"
      and a3: "list_all (\<lambda>c. case_attempt c = int_or (attempt s) 1) cases"
      by (elim exE conjE)
    from g have g': "\<forall>c. case_attempt (g c) = case_attempt c"
      by simp
    show ?thesis
      apply (rule exI [of _ g])
      apply (rule exI [of _ cases])
      apply (intro conjI)
        apply (rule g')
       apply (rule a1)
      apply (rule a3)
      done
  qed
qed








section \<open>Attempt numbers\<close>

lemma int_or_pos: "1 \<le> a \<Longrightarrow> int_or (Some a) 1 = a"
  by (simp add: int_or_def)

lemma attempt_states_numbers:
  assumes "attempt s = Some a" and "1 \<le> a"
    and "\<forall>c \<in> set (get_or (results s) []). 1 \<le> case_attempt c \<and> case_attempt c \<le> a"
    and "i < length ws"
  shows "attempt (attempt_states ws s ! i) = Some (a + int i)
       \<and> (\<forall>c \<in> set (get_or (results (attempt_states ws s ! i)) []).
             1 \<le> case_attempt c \<and> case_attempt c \<le> a + int i)"
  using assms
proof (induction ws arbitrary: s a i)
  case Nil
  then show ?case by simp
next
  case (Cons w ws)
  define s1 where "s1 = attempt_nodes w s"
  have at: "attempt s1 = Some a"
    by (simp add: s1_def attempt_nodes_frame Cons.prems(1))
  from attempt_nodes_results [of w s]
  obtain g cases where g: "\<forall>c. case_attempt (g c) = case_attempt c"
      and r: "get_or (results s1) [] = map g (get_or (results s) [] @ cases)"
      and l: "list_all (\<lambda>c. case_attempt c = int_or (attempt s) 1) cases"
    unfolding s1_def by (elim exE conjE)
  from l have l': "\<forall>c \<in> set cases. case_attempt c = a"
    by (simp add: list_all_iff Cons.prems(1) int_or_pos [OF Cons.prems(2)])
  have inv1: "\<forall>c \<in> set (get_or (results s1) []). 1 \<le> case_attempt c \<and> case_attempt c \<le> a"
    unfolding r using g l' Cons.prems(2,3) by auto
  show ?case
  proof (cases i)
    case 0
    with at inv1 show ?thesis
      by (simp add: s1_def [symmetric])
  next
    case (Suc j)
    have at2: "attempt (retry_once s1) = Some (a + 1)"
      by (simp add: retry_once_def at int_or_pos [OF Cons.prems(2)])
    have inv2: "\<forall>c \<in> set (get_or (results (retry_once s1)) []).
                  1 \<le> case_attempt c \<and> case_attempt c \<le> a + 1"
      using inv1 by (auto simp: retry_once_frame)
    from Cons.prems(4) Suc have j: "j < length ws"
      by simp
    from Cons.prems(2) have "1 \<le> a + 1"
      by simp
    from Cons.IH [OF at2 this inv2 j] show ?thesis
      by (simp add: Suc s1_def [symmetric] add.assoc)
  qed
qed

text \<open>
  C9. Config resolution starts the attempt number at 1 when the caller gave none, each
  \<open>retry_once\<close> adds exactly 1 to an attempt number, and in a run that starts with no
  results, at the end of attempt \<open>K\<close> the attempt number is \<open>K\<close> and every accumulated
  result carries an attempt number from 1 to \<open>K\<close>.
\<close>

theorem attempt_numbers_in_range:
  "(attempt s0 = None \<longrightarrow> attempt (prepare_config s0) = Some 1)
   \<and> (attempt s = Some a \<and> a \<noteq> 0 \<longrightarrow> attempt (retry_once s) = Some (a + 1))
   \<and> (attempt s0 = None \<and> get_or (results s0) [] = [] \<and> i < length ws \<longrightarrow>
        attempt (attempt_states ws (prepare_config s0) ! i) = Some (int i + 1)
        \<and> (\<forall>c \<in> set (get_or (results (attempt_states ws (prepare_config s0) ! i)) []).
              1 \<le> case_attempt c \<and> case_attempt c \<le> int i + 1))"
proof (intro conjI impI)
  assume "attempt s0 = None"
  then show "attempt (prepare_config s0) = Some 1"
    by (simp add: prepare_config_def setdefault_def)
next
  assume "attempt s = Some a \<and> a \<noteq> 0"
  then show "attempt (retry_once s) = Some (a + 1)"
    by (simp add: retry_once_def int_or_def)
next
  assume h: "attempt s0 = None \<and> get_or (results s0) [] = [] \<and> i < length ws"
  then have a: "attempt (prepare_config s0) = Some 1"
    by (simp add: prepare_config_def setdefault_def)
  from h have "get_or (results (prepare_config s0)) [] = []"
    by (cases "results s0") (simp_all add: prepare_config_def setdefault_def get_or_def)
  then have r: "\<forall>c \<in> set (get_or (results (prepare_config s0)) []).
                  1 \<le> case_attempt c \<and> case_attempt c \<le> 1"
    by simp
  from h have i: "i < length ws"
    by simp
  from attempt_states_numbers [OF a _ r i]
  have "attempt (attempt_states ws (prepare_config s0) ! i) = Some (1 + int i)
       \<and> (\<forall>c \<in> set (get_or (results (attempt_states ws (prepare_config s0) ! i)) []).
             1 \<le> case_attempt c \<and> case_attempt c \<le> 1 + int i)"
    by simp
  then show "attempt (attempt_states ws (prepare_config s0) ! i) = Some (int i + 1)"
    and "\<forall>c \<in> set (get_or (results (attempt_states ws (prepare_config s0) ! i)) []).
              1 \<le> case_attempt c \<and> case_attempt c \<le> int i + 1"
    by (simp_all add: add.commute)
qed

theorem attempt_numbers_in_range_witness:
  "attempt (prepare_config driver_example_state) = Some 1
   \<and> attempt (retry_once first_attempt_state) = Some 2
   \<and> attempt (attempt_states [sample_world, sample_world] (prepare_config driver_example_state) ! 1)
       = Some 2
   \<and> map case_attempt
         (get_or (results (attempt_states [sample_world, sample_world]
                             (prepare_config driver_example_state) ! 1)) [])
       = [1, 1, 1, 2, 2, 2]"
proof -
  note t = attempt_numbers_in_range
    [of driver_example_state first_attempt_state 1 1 "[sample_world, sample_world]"]
  have h1: "attempt driver_example_state = None"
    by code_simp
  have h2: "attempt first_attempt_state = Some 1 \<and> (1::int) \<noteq> 0"
    by code_simp
  have h3: "attempt driver_example_state = None \<and> get_or (results driver_example_state) [] = []
            \<and> 1 < length [sample_world, sample_world]"
    by code_simp
  have a: "attempt (prepare_config driver_example_state) = Some 1"
    using conjunct1 [OF t] h1 by (rule mp)
  have b: "attempt (retry_once first_attempt_state) = Some (1 + 1)"
    using conjunct1 [OF conjunct2 [OF t]] h2 by (rule mp)
  have c: "attempt (attempt_states [sample_world, sample_world] (prepare_config driver_example_state) ! 1)
             = Some (int 1 + 1)"
    using conjunct1 [OF mp [OF conjunct2 [OF conjunct2 [OF t]] h3]] .
  have d: "map case_attempt
         (get_or (results (attempt_states [sample_world, sample_world]
                             (prepare_config driver_example_state) ! 1)) [])
       = [1, 1, 1, 2, 2, 2]"
    by code_simp
  from a b c d show ?thesis by simp
qed

section \<open>Run memory: the count of recurrences\<close>

lemma length_join:
  "length [(r, u). r \<leftarrow> rows, u \<leftarrow> us, P r u]
     = sum_list (map (\<lambda>r. length (filter (P r) us)) rows)"
proof (induction rows)
  case Nil
  show ?case by simp
next
  case (Cons r rows)
  have "length (concat (map (\<lambda>u. if P r u then [(r, u)] else []) us)) = length (filter (P r) us)"
    by (induction us) simp_all
  with Cons show ?case by simp
qed

lemma distinct_hits:
  assumes "distinct (map run_id us)"
  shows "length (filter (\<lambda>u. rid = run_id u \<and> Q u) us)
           = (if \<exists>u \<in> set us. run_id u = rid \<and> Q u then 1 else 0)"
  using assms
proof (induction us)
  case Nil
  show ?case by simp
next
  case (Cons u us)
  then have d: "distinct (map run_id us)" and n: "run_id u \<notin> run_id ` set us"
    by simp_all
  note ih = Cons.IH [OF d]
  show ?case
  proof (cases "rid = run_id u")
    case True
    with n have "\<not> (\<exists>v \<in> set us. run_id v = rid \<and> Q v)"
      by (metis imageI)
    with ih True show ?thesis by auto
  next
    case False
    with ih show ?thesis by auto
  qed
qed

lemma find_recurrences_window:
  assumes "0 \<le> days" and "sqlite_instant (now - days * 86400)"
  shows "find_recurrences db now nm msg (Some days)
     = int (sum_list (map (\<lambda>r. length (filter (\<lambda>u. row_run_id r = run_id u \<and> row_name r = nm
                \<and> row_status r = ''failed'' \<and> row_message r = msg \<and> now - days * 86400 \<le> ts u)
              (runs db))) (result_rows db)))"
  using assms by (simp add: find_recurrences_def sqlite_days_before_def length_join)

lemma find_recurrences_count:
  assumes "distinct (map run_id (runs db))" and "0 \<le> days"
    and "sqlite_instant (now - days * 86400)"
  shows "find_recurrences db now nm msg (Some days)
     = int (length (filter (\<lambda>r. row_matches nm msg r
                \<and> run_in_window db (now - days * 86400) (row_run_id r)) (result_rows db)))"
proof -
  have hit: "length (filter (\<lambda>u. row_run_id r = run_id u \<and> row_name r = nm
                \<and> row_status r = ''failed'' \<and> row_message r = msg \<and> now - days * 86400 \<le> ts u)
              (runs db))
          = (if row_matches nm msg r \<and> run_in_window db (now - days * 86400) (row_run_id r)
             then 1 else 0)" for r
    using distinct_hits [OF assms(1), of "row_run_id r"
        "\<lambda>u. row_name r = nm \<and> row_status r = ''failed'' \<and> row_message r = msg
             \<and> now - days * 86400 \<le> ts u"]
    by (auto simp: row_matches_def run_in_window_def)
  have "sum_list (map (\<lambda>r. if P r then 1 else 0) rows) = length (filter P rows)"
    for P :: "result_row \<Rightarrow> bool" and rows
    by (induction rows) simp_all
  then show ?thesis
    unfolding find_recurrences_window [OF assms(2,3)] hit by simp
qed

lemma fold_insert_result:
  "runs (fold (insert_result rid) rs db) = runs db
   \<and> runs_seq (fold (insert_result rid) rs db) = runs_seq db
   \<and> (\<exists>rows. result_rows (fold (insert_result rid) rs db) = result_rows db @ rows
         \<and> list_all2 (row_of_case rid) rows rs)"
proof (induction rs arbitrary: db)
  case Nil
  show ?case by simp
next
  case (Cons c rs)
  define db1 where "db1 = insert_result rid c db"
  define row where "row = last (result_rows db1)"
  have r1: "result_rows db1 = result_rows db @ [row]"
    and rc: "row_of_case rid row c"
    and u1: "runs db1 = runs db" and q1: "runs_seq db1 = runs_seq db"
    by (simp_all add: row_def db1_def insert_result_def row_of_case_def)
  from Cons.IH [of db1]
  obtain rows where a: "runs (fold (insert_result rid) rs db1) = runs db1"
    and b: "runs_seq (fold (insert_result rid) rs db1) = runs_seq db1"
    and c: "result_rows (fold (insert_result rid) rs db1) = result_rows db1 @ rows"
    and d: "list_all2 (row_of_case rid) rows rs"
    by (elim exE conjE)
  have f: "fold (insert_result rid) (c # rs) db = fold (insert_result rid) rs db1"
    by (simp add: db1_def)
  have "result_rows (fold (insert_result rid) (c # rs) db) = result_rows db @ (row # rows)"
    unfolding f c r1 by simp
  moreover have "list_all2 (row_of_case rid) (row # rows) (c # rs)"
    using rc d by simp
  ultimately have "\<exists>rows. result_rows (fold (insert_result rid) (c # rs) db) = result_rows db @ rows
         \<and> list_all2 (row_of_case rid) rows (c # rs)"
    by blast
  then show ?case
    by (simp only: f a b u1 q1 simp_thms)
qed

lemma save_run_effect:
  "\<exists>u rows. runs (save_run now proj sm rs llm db) = runs db @ [u]
     \<and> run_id u = runs_seq db + 1 \<and> ts u = now
     \<and> runs_seq (save_run now proj sm rs llm db) = runs_seq db + 1
     \<and> result_rows (save_run now proj sm rs llm db) = result_rows db @ rows
     \<and> list_all2 (row_of_case (runs_seq db + 1)) rows rs"
proof -
  define u where "u = \<lparr>run_id = runs_seq db + 1, run_project = proj, ts = now,
      run_total = total_n sm, run_passed = passed sm, run_failed = failed sm,
      run_skipped = skipped sm, run_llm_summary = llm\<rparr>"
  define db1 where "db1 = db\<lparr>runs := runs db @ [u], runs_seq := runs_seq db + 1\<rparr>"
  have s: "save_run now proj sm rs llm db = fold (insert_result (runs_seq db + 1)) rs db1"
    by (simp add: save_run_def Let_def db1_def u_def)
  from fold_insert_result [of "runs_seq db + 1" rs db1]
  obtain rows where a: "runs (fold (insert_result (runs_seq db + 1)) rs db1) = runs db1"
    and b: "runs_seq (fold (insert_result (runs_seq db + 1)) rs db1) = runs_seq db1"
    and c: "result_rows (fold (insert_result (runs_seq db + 1)) rs db1) = result_rows db1 @ rows"
    and d: "list_all2 (row_of_case (runs_seq db + 1)) rows rs"
    by (elim exE conjE)
  have e: "runs db1 = runs db @ [u]" "run_id u = runs_seq db + 1" "ts u = now"
      "runs_seq db1 = runs_seq db + 1" "result_rows db1 = result_rows db"
    by (simp_all add: db1_def u_def)
  show ?thesis
    apply (rule exI [of _ u])
    apply (rule exI [of _ rows])
    unfolding s a b c e
    apply (intro conjI refl d)
    done
qed

lemma store_ok_init: "store_ok init_db"
  by (simp add: store_ok_def init_db_def)

lemma store_ok_save_run:
  assumes "store_ok db"
  shows "store_ok (save_run now proj sm rs llm db)"
proof -
  from save_run_effect [of now proj sm rs llm db]
  obtain u rows where u: "runs (save_run now proj sm rs llm db) = runs db @ [u]"
    and i: "run_id u = runs_seq db + 1"
    and q: "runs_seq (save_run now proj sm rs llm db) = runs_seq db + 1"
    and r: "result_rows (save_run now proj sm rs llm db) = result_rows db @ rows"
    and l: "list_all2 (row_of_case (runs_seq db + 1)) rows rs"
    by (elim exE conjE)
  from l have new: "list_all (\<lambda>r. row_run_id r \<le> runs_seq db + 1) rows"
    by (induction rule: list_all2_induct) (simp_all add: row_of_case_def)
  from assms have d: "distinct (map run_id (runs db))"
    and a: "\<forall>v \<in> set (runs db). run_id v \<le> runs_seq db"
    and b: "\<forall>r \<in> set (result_rows db). row_run_id r \<le> runs_seq db"
    by (simp_all add: store_ok_def list_all_iff)
  from a have "run_id u \<notin> run_id ` set (runs db)"
    unfolding i by fastforce
  with d have "distinct (map run_id (runs db @ [u]))"
    by simp
  moreover from a have "\<forall>v \<in> set (runs db @ [u]). run_id v \<le> runs_seq db + 1"
    by (auto simp: i)
  moreover from b new have "\<forall>r \<in> set (result_rows db @ rows). row_run_id r \<le> runs_seq db + 1"
    by (auto simp: list_all_iff)
  ultimately show ?thesis
    by (simp add: store_ok_def u q r list_all_iff)
qed

lemma count_new_rows:
  assumes "list_all2 (row_of_case rid) rows rs"
  shows "length (filter (\<lambda>r. row_matches nm msg r \<and> row_run_id r = rid) rows)
           = length (filter (case_matches nm msg) rs)"
  using assms
  by (induction rule: list_all2_induct)
     (auto simp: row_of_case_def row_matches_def case_matches_def)

lemma rows_run_id:
  assumes "list_all2 (row_of_case rid) rows rs"
  shows "\<forall>r \<in> set rows. row_run_id r = rid"
  using assms by (induction rule: list_all2_induct) (simp_all add: row_of_case_def)



text \<open>The count after a save: the count before, and the matching cases of the saved run.\<close>

lemma find_recurrences_after_save:
  assumes ok: "store_ok db" and days: "0 \<le> days"
    and inst: "sqlite_instant (t - days * 86400)"
    and win: "t - days * 86400 \<le> now"
  shows "find_recurrences (save_run now proj sm rs llm db) t nm msg (Some days)
           = find_recurrences db t nm msg (Some days)
             + int (length (filter (case_matches nm msg) rs))"
proof -
  define db' where "db' = save_run now proj sm rs llm db"
  define cutoff where "cutoff = t - days * 86400"
  from save_run_effect [of now proj sm rs llm db]
  obtain u rows where u: "runs db' = runs db @ [u]"
    and i: "run_id u = runs_seq db + 1" and tu: "ts u = now"
    and r: "result_rows db' = result_rows db @ rows"
    and l: "list_all2 (row_of_case (runs_seq db + 1)) rows rs"
    unfolding db'_def by (elim exE conjE)
  from ok have d: "distinct (map run_id (runs db))"
    and a: "\<forall>v \<in> set (runs db). run_id v \<le> runs_seq db"
    and b: "\<forall>r \<in> set (result_rows db). row_run_id r \<le> runs_seq db"
    by (simp_all add: store_ok_def list_all_iff)
  from store_ok_save_run [OF ok, of now proj sm rs llm]
  have d': "distinct (map run_id (runs db'))"
    by (simp add: store_ok_def db'_def)
  have old: "run_in_window db' cutoff (row_run_id r) = run_in_window db cutoff (row_run_id r)"
    if "r \<in> set (result_rows db)" for r
  proof -
    from b that have "row_run_id r \<noteq> run_id u"
      unfolding i by fastforce
    then show ?thesis
      by (auto simp: run_in_window_def u)
  qed
  have new: "run_in_window db' cutoff (row_run_id r)" if "r \<in> set rows" for r
  proof -
    from rows_run_id [OF l] that have "row_run_id r = run_id u"
      by (simp add: i)
    with win show ?thesis
      by (auto simp: run_in_window_def u tu cutoff_def)
  qed
  have f1: "filter (\<lambda>r. row_matches nm msg r \<and> run_in_window db' cutoff (row_run_id r)) (result_rows db)
          = filter (\<lambda>r. row_matches nm msg r \<and> run_in_window db cutoff (row_run_id r)) (result_rows db)"
    by (rule filter_cong [OF refl]) (simp add: old)
  have f2: "filter (\<lambda>r. row_matches nm msg r \<and> run_in_window db' cutoff (row_run_id r)) rows
          = filter (\<lambda>r. row_matches nm msg r \<and> row_run_id r = runs_seq db + 1) rows"
    by (rule filter_cong [OF refl]) (use new rows_run_id [OF l] in auto)
  have "find_recurrences db' t nm msg (Some days)
      = int (length (filter (\<lambda>r. row_matches nm msg r \<and> run_in_window db' cutoff (row_run_id r))
                       (result_rows db @ rows)))"
    unfolding find_recurrences_count [OF d' days inst] cutoff_def r ..
  also have "\<dots> = int (length (filter (\<lambda>r. row_matches nm msg r
                          \<and> run_in_window db cutoff (row_run_id r)) (result_rows db)))
                 + int (length (filter (case_matches nm msg) rs))"
    by (simp only: filter_append length_append f1 f2 count_new_rows [OF l] of_nat_add)
  also have "\<dots> = find_recurrences db t nm msg (Some days)
                 + int (length (filter (case_matches nm msg) rs))"
    unfolding find_recurrences_count [OF d days inst] cutoff_def ..
  finally show ?thesis
    unfolding db'_def .
qed

lemma store_ok_persist: "store_ok db \<Longrightarrow> store_ok (fst (persist_to_memory io db s))"
  by (simp add: persist_to_memory_def Let_def store_ok_save_run split: option.split)


text \<open>
  C7 (as amended). \<open>find_recurrences\<close> with a window of \<open>days\<close> days, not negative and
  starting at an instant SQLite represents, returns the number of stored result rows
  whose status is \<open>failed\<close>, whose name and message equal the arguments exactly, and whose
  run has a timestamp within the last \<open>days\<close> days before the query. When the window
  would start before Julian day 0 it returns 0. On the empty store it returns 0 for
  every name, message and window.
\<close>

theorem find_recurrences_exact_window:
  "(store_ok db \<and> 0 \<le> days \<and> sqlite_instant (now - days * 86400) \<longrightarrow>
      find_recurrences db now nm msg (Some days)
        = int (length (filter (\<lambda>r. row_status r = ''failed'' \<and> row_name r = nm \<and> row_message r = msg
                                  \<and> (\<exists>u \<in> set (runs db). run_id u = row_run_id r
                                          \<and> now - days * 86400 \<le> ts u))
                         (result_rows db))))
   \<and> (0 \<le> days \<and> now - days * 86400 < julian_day_zero \<longrightarrow>
        find_recurrences db now nm msg (Some days) = 0)
   \<and> find_recurrences init_db now nm msg d = 0"
proof (intro conjI impI)
  assume "store_ok db \<and> 0 \<le> days \<and> sqlite_instant (now - days * 86400)"
  then have "distinct (map run_id (runs db))" and "0 \<le> days"
    and "sqlite_instant (now - days * 86400)"
    by (simp_all add: store_ok_def)
  from find_recurrences_count [OF this]
  show "find_recurrences db now nm msg (Some days)
        = int (length (filter (\<lambda>r. row_status r = ''failed'' \<and> row_name r = nm \<and> row_message r = msg
                                  \<and> (\<exists>u \<in> set (runs db). run_id u = row_run_id r
                                          \<and> now - days * 86400 \<le> ts u))
                         (result_rows db)))"
    by (simp add: row_matches_def run_in_window_def conj_assoc)
next
  assume "0 \<le> days \<and> now - days * 86400 < julian_day_zero"
  then show "find_recurrences db now nm msg (Some days) = 0"
    by (simp add: find_recurrences_def sqlite_days_before_def sqlite_instant_def)
next
  show "find_recurrences init_db now nm msg d = 0"
    by (simp add: find_recurrences_def init_db_def split: option.split)
qed

text \<open>
  The claim as first stated fails for a window of three million days: the two stored
  failures belong to the runs of the instants 0 and 864000, both within the window, and
  the count is 0, since the window starts before the first instant SQLite represents.
\<close>

theorem find_recurrences_exact_window_counterexample:
  "map run_id (runs two_runs_store) = [1, 2]
   \<and> map ts (runs two_runs_store) = [0, 864000]
   \<and> map row_run_id (result_rows two_runs_store) = [1, 1, 2, 2]
   \<and> map row_status (result_rows two_runs_store) = [''failed'', ''passed'', ''failed'', ''passed'']
   \<and> map row_name (result_rows two_runs_store)
       = [''checkout_flow'', ''home'', ''checkout_flow'', ''home'']
   \<and> map row_message (result_rows two_runs_store) = [''Timeout'', [], ''Timeout'', []]
   \<and> (864060::int) - 3000000 * 86400 \<le> 0
   \<and> find_recurrences two_runs_store 864060 ''checkout_flow'' ''Timeout'' (Some 3000000) = 0"
  by code_simp

theorem find_recurrences_exact_window_witness:
  "find_recurrences two_runs_store 864060 ''checkout_flow'' ''Timeout'' (Some 7) = 1
   \<and> find_recurrences two_runs_store 864060 ''checkout_flow'' ''Timeout'' (Some 11) = 2
   \<and> find_recurrences two_runs_store 864060 ''checkout_flow'' ''Time'' (Some 11) = 0
   \<and> find_recurrences two_runs_store 864060 ''checkout_flow'' ''Timeout'' (Some 2440597) = 2
   \<and> find_recurrences two_runs_store 864060 ''checkout_flow'' ''Timeout'' (Some 2440598) = 0
   \<and> find_recurrences init_db 864060 ''checkout_flow'' ''Timeout'' (Some 7) = 0"
proof -
  have ok: "store_ok two_runs_store"
    unfolding two_runs_store_def by (intro store_ok_persist store_ok_init)
  have i: "sqlite_instant (864060 - 7 * 86400)" "sqlite_instant (864060 - 11 * 86400)"
      "sqlite_instant (864060 - 2440597 * 86400)"
    by code_simp+
  note i7 = i(1) and i11 = i(2) and i2440597 = i(3)
  note t = find_recurrences_exact_window [of two_runs_store _ 864060 _ _ "Some 7"]
  have a: "find_recurrences two_runs_store 864060 ''checkout_flow'' ''Timeout'' (Some 7)
        = int (length (filter (\<lambda>r. row_status r = ''failed'' \<and> row_name r = ''checkout_flow''
                                  \<and> row_message r = ''Timeout''
                                  \<and> (\<exists>u \<in> set (runs two_runs_store). run_id u = row_run_id r
                                          \<and> 864060 - 7 * 86400 \<le> ts u))
                         (result_rows two_runs_store)))"
    using conjunct1 [OF t [of 7 "''checkout_flow''" "''Timeout''"]] ok i7 by simp
  have a': "int (length (filter (\<lambda>r. row_status r = ''failed'' \<and> row_name r = ''checkout_flow''
                                  \<and> row_message r = ''Timeout''
                                  \<and> (\<exists>u \<in> set (runs two_runs_store). run_id u = row_run_id r
                                          \<and> 864060 - 7 * 86400 \<le> ts u))
                         (result_rows two_runs_store))) = 1"
    by code_simp
  have b: "find_recurrences two_runs_store 864060 ''checkout_flow'' ''Timeout'' (Some 11)
        = int (length (filter (\<lambda>r. row_status r = ''failed'' \<and> row_name r = ''checkout_flow''
                                  \<and> row_message r = ''Timeout''
                                  \<and> (\<exists>u \<in> set (runs two_runs_store). run_id u = row_run_id r
                                          \<and> 864060 - 11 * 86400 \<le> ts u))
                         (result_rows two_runs_store)))"
    using conjunct1 [OF t [of 11 "''checkout_flow''" "''Timeout''"]] ok i11 by simp
  have b': "int (length (filter (\<lambda>r. row_status r = ''failed'' \<and> row_name r = ''checkout_flow''
                                  \<and> row_message r = ''Timeout''
                                  \<and> (\<exists>u \<in> set (runs two_runs_store). run_id u = row_run_id r
                                          \<and> 864060 - 11 * 86400 \<le> ts u))
                         (result_rows two_runs_store))) = 2"
    by code_simp
  have c: "find_recurrences two_runs_store 864060 ''checkout_flow'' ''Time'' (Some 11)
        = int (length (filter (\<lambda>r. row_status r = ''failed'' \<and> row_name r = ''checkout_flow''
                                  \<and> row_message r = ''Time''
                                  \<and> (\<exists>u \<in> set (runs two_runs_store). run_id u = row_run_id r
                                          \<and> 864060 - 11 * 86400 \<le> ts u))
                         (result_rows two_runs_store)))"
    using conjunct1 [OF t [of 11 "''checkout_flow''" "''Time''"]] ok i11 by simp
  have c': "int (length (filter (\<lambda>r. row_status r = ''failed'' \<and> row_name r = ''checkout_flow''
                                  \<and> row_message r = ''Time''
                                  \<and> (\<exists>u \<in> set (runs two_runs_store). run_id u = row_run_id r
                                          \<and> 864060 - 11 * 86400 \<le> ts u))
                         (result_rows two_runs_store))) = 0"
    by code_simp
  have e: "find_recurrences two_runs_store 864060 ''checkout_flow'' ''Timeout'' (Some 2440597)
        = int (length (filter (\<lambda>r. row_status r = ''failed'' \<and> row_name r = ''checkout_flow''
                                  \<and> row_message r = ''Timeout''
                                  \<and> (\<exists>u \<in> set (runs two_runs_store). run_id u = row_run_id r
                                          \<and> 864060 - 2440597 * 86400 \<le> ts u))
                         (result_rows two_runs_store)))"
    using conjunct1 [OF t [of 2440597 "''checkout_flow''" "''Timeout''"]] ok i2440597 by simp
  have e': "int (length (filter (\<lambda>r. row_status r = ''failed'' \<and> row_name r = ''checkout_flow''
                                  \<and> row_message r = ''Timeout''
                                  \<and> (\<exists>u \<in> set (runs two_runs_store). run_id u = row_run_id r
                                          \<and> 864060 - 2440597 * 86400 \<le> ts u))
                         (result_rows two_runs_store))) = 2"
    by code_simp
  have "(0::int) \<le> 2440598 \<and> 864060 - 2440598 * 86400 < julian_day_zero"
    by code_simp
  with conjunct1 [OF conjunct2 [OF t [of 2440598 "''checkout_flow''" "''Timeout''"]]]
  have f: "find_recurrences two_runs_store 864060 ''checkout_flow'' ''Timeout'' (Some 2440598) = 0"
    by (rule mp)
  have d: "find_recurrences init_db 864060 ''checkout_flow'' ''Timeout'' (Some 7) = 0"
    by (rule conjunct2 [OF conjunct2 [OF find_recurrences_exact_window]])
  from a b c e f d show ?thesis
    unfolding a' b' c' e' by (intro conjI)
qed

section \<open>Persisting a run\<close>

text \<open>
  C10 (as amended). \<open>persist_to_memory\<close> saves the run before it looks for recurrences,
  so the rows of the saved run count: for a failed case of the run, the lookup (made
  within seven days of the save, its window starting at an instant SQLite represents)
  returns the count the store had before the save plus
  the number of failed results of this run, over all its attempts, with the same name
  and message; that is at least 1. The note says \<open>NEW failure\<close> exactly when the count is
  1, and \<open>seen N times in last 7 days\<close> when it is more.
\<close>

theorem recurrence_counts_own_run:
  assumes "store_ok db" and "save_error io = None" and "lookup_error io i = None"
    and "i < length (get_or (results s) [])"
    and "status (get_or (results s) [] ! i) = ''failed''"
    and "lookup_time io i - 7 * 86400 \<le> save_time io"
    and "sqlite_instant (lookup_time io i - 7 * 86400)"
  shows "let rs = get_or (results s) []; c = rs ! i;
             db' = fst (persist_to_memory io db s);
             seen = find_recurrences db' (lookup_time io i) (name c) (message c) (Some 7)
         in seen = find_recurrences db (lookup_time io i) (name c) (message c) (Some 7)
                   + int (length (filter (\<lambda>x. status x = ''failed'' \<and> name x = name c
                                              \<and> message x = message c) rs))
            \<and> 1 \<le> seen
            \<and> recurrence_note io db' i c
                = (if 1 < seen then name c @ '': seen '' @ str_int seen @ '' times in last 7 days''
                   else name c @ '': NEW failure'')
            \<and> memory_notes (snd (persist_to_memory io db s))
                = Some (map (\<lambda>(j, x). recurrence_note io db' j x)
                          (filter (\<lambda>(j, x). status x = ''failed'') (enumerate 0 rs)))"
proof -
  define rs where "rs = get_or (results s) []"
  define c where "c = rs ! i"
  define db' where "db' = save_run (save_time io) ''UI'' (get_or (summary s) empty_summary) rs
                            (get_or (llm_summary s) []) db"
  define seen where "seen = find_recurrences db' (lookup_time io i) (name c) (message c) (Some 7)"
  have p: "persist_to_memory io db s
             = (db', s\<lparr>memory_notes := Some (map (\<lambda>(j, x). recurrence_note io db' j x)
                          (filter (\<lambda>(j, x). status x = ''failed'') (enumerate 0 rs)))\<rparr>)"
    by (simp add: persist_to_memory_def Let_def assms(2) db'_def rs_def)
  have cm: "case_matches (name c) (message c) = (\<lambda>x. status x = ''failed'' \<and> name x = name c
                                              \<and> message x = message c)"
    by (rule ext) (simp add: case_matches_def)
  have s1: "seen = find_recurrences db (lookup_time io i) (name c) (message c) (Some 7)
                   + int (length (filter (\<lambda>x. status x = ''failed'' \<and> name x = name c
                                              \<and> message x = message c) rs))"
    unfolding seen_def db'_def
    using find_recurrences_after_save [OF assms(1) _ assms(7) assms(6), of "''UI''"
        "get_or (summary s) empty_summary" rs "get_or (llm_summary s) []" "name c" "message c"]
    by (simp add: cm)
  have "c \<in> set (filter (\<lambda>x. status x = ''failed'' \<and> name x = name c \<and> message x = message c) rs)"
    using assms(4,5) by (simp add: c_def rs_def)
  then have "0 < length (filter (\<lambda>x. status x = ''failed'' \<and> name x = name c
                                              \<and> message x = message c) rs)"
    by (rule length_pos_if_in_set)
  moreover have "0 \<le> find_recurrences db (lookup_time io i) (name c) (message c) (Some 7)"
    by (simp add: find_recurrences_def split: option.split)
  ultimately have s2: "1 \<le> seen"
    unfolding s1 by linarith
  have s3: "recurrence_note io db' i c
                = (if 1 < seen then name c @ '': seen '' @ str_int seen @ '' times in last 7 days''
                   else name c @ '': NEW failure'')"
    by (simp add: recurrence_note_def assms(3) Let_def seen_def)
  have s4: "memory_notes (snd (persist_to_memory io db s))
                = Some (map (\<lambda>(j, x). recurrence_note io db' j x)
                          (filter (\<lambda>(j, x). status x = ''failed'') (enumerate 0 rs)))"
    unfolding p by simp
  have f: "fst (persist_to_memory io db s) = db'"
    unfolding p by simp
  show ?thesis
    unfolding Let_def rs_def [symmetric] c_def [symmetric] f seen_def [symmetric]
    using s1 s2 s3 s4 by (intro conjI)
qed


text \<open>
  The claim as first stated fails for a failure that no earlier run has seen and that
  fails in both attempts of its run: the count is 2 and the note is not \<open>NEW failure\<close>.
\<close>

theorem recurrence_counts_own_run_counterexample:
  "find_recurrences init_db 1001 ''checkout_flow'' ''Timeout'' (Some 7) = 0
   \<and> find_recurrences init_db 1001 ''checkout_flow'' ''Timeout'' None = 0
   \<and> find_recurrences (fst (persist_to_memory (calls_at 1000) init_db repeated_failure_state))
        1001 ''checkout_flow'' ''Timeout'' (Some 7) = 2
   \<and> memory_notes (snd (persist_to_memory (calls_at 1000) init_db repeated_failure_state))
       = Some [''checkout_flow: seen 2 times in last 7 days'',
               ''checkout_flow: seen 2 times in last 7 days'']"
  by code_simp


theorem recurrence_counts_own_run_witness:
  "1 \<le> find_recurrences (fst (persist_to_memory (calls_at 1000) init_db one_failure_state))
          1001 ''checkout_flow'' ''Timeout'' (Some 7)
   \<and> find_recurrences (fst (persist_to_memory (calls_at 1000) init_db one_failure_state))
          1001 ''checkout_flow'' ''Timeout'' (Some 7) = 1
   \<and> memory_notes (snd (persist_to_memory (calls_at 1000) init_db one_failure_state))
       = Some [''checkout_flow: NEW failure'']"
proof -
  have h: "save_error (calls_at 1000) = None" "lookup_error (calls_at 1000) 0 = None"
      "0 < length (get_or (results one_failure_state) [])"
      "status (get_or (results one_failure_state) [] ! 0) = ''failed''"
      "lookup_time (calls_at 1000) 0 - 7 * 86400 \<le> save_time (calls_at 1000)"
      "sqlite_instant (lookup_time (calls_at 1000) 0 - 7 * 86400)"
    by code_simp+
  have n: "name (get_or (results one_failure_state) [] ! 0) = ''checkout_flow''"
      "message (get_or (results one_failure_state) [] ! 0) = ''Timeout''"
      "lookup_time (calls_at 1000) 0 = 1001"
    by code_simp+
  from recurrence_counts_own_run [OF store_ok_init h]
  have a: "1 \<le> find_recurrences (fst (persist_to_memory (calls_at 1000) init_db one_failure_state))
          1001 ''checkout_flow'' ''Timeout'' (Some 7)"
    unfolding Let_def n by (elim conjE)
  have b: "find_recurrences (fst (persist_to_memory (calls_at 1000) init_db one_failure_state))
          1001 ''checkout_flow'' ''Timeout'' (Some 7) = 1"
    by code_simp
  have c: "memory_notes (snd (persist_to_memory (calls_at 1000) init_db one_failure_state))
       = Some [''checkout_flow: NEW failure'']"
    by code_simp
  from a b c show ?thesis by (intro conjI)
qed

end
